(* ===== verification/Prelude.thy ===== *)
theory Prelude
  imports Complex_Main
begin

text \<open>
  What the component theories share: Rust strings as lists of Unicode scalar values, the
  standard-library operations the program uses on them (byte lengths, slices that panic off a
  character boundary, trimming, splitting, joining), results as sums, and the list lemmas behind
  several components.

  A Rust \<open>String\<close>/\<open>&str\<close> is a list of Unicode scalar values, each a natural number. Byte
  offsets are computed through the UTF-8 length of each scalar, so a slice at an offset inside a
  character is the panic it is in Rust: \<open>None\<close>.
\<close>

named_theorems str_simps \<open>facts about strings, tokens and slices\<close>

section \<open>Results\<close>

text \<open>Rust's \<open>Result<T, E>\<close> is \<open>'e + 'a\<close>, \<open>Inl\<close> the error.\<close>

definition and_then :: "'e + 'a \<Rightarrow> ('a \<Rightarrow> 'e + 'b) \<Rightarrow> 'e + 'b" where
  "and_then r f = (case r of Inl e \<Rightarrow> Inl e | Inr a \<Rightarrow> f a)"

definition map_ok :: "('a \<Rightarrow> 'b) \<Rightarrow> 'e + 'a \<Rightarrow> 'e + 'b" where
  "map_ok f r = (case r of Inl e \<Rightarrow> Inl e | Inr a \<Rightarrow> Inr (f a))"

definition map_err :: "('e \<Rightarrow> 'f) \<Rightarrow> 'e + 'a \<Rightarrow> 'f + 'a" where
  "map_err f r = (case r of Inl e \<Rightarrow> Inl (f e) | Inr a \<Rightarrow> Inr a)"

text \<open>Collecting an iterator of results: the first error wins.\<close>

fun collect_results :: "('a \<Rightarrow> 'e + 'b) \<Rightarrow> 'a list \<Rightarrow> 'e + 'b list" where
  "collect_results f [] = Inr []"
| "collect_results f (x # xs) =
     and_then (f x) (\<lambda>y. and_then (collect_results f xs) (\<lambda>ys. Inr (y # ys)))"

text \<open>\<open>Option<Result<T, E>>::transpose\<close>.\<close>

definition transpose_result :: "('a \<Rightarrow> 'e + 'b) \<Rightarrow> 'a option \<Rightarrow> 'e + 'b option" where
  "transpose_result f v =
     (case v of None \<Rightarrow> Inr None | Some a \<Rightarrow> map_ok Some (f a))"

lemma and_then_simps [simp]:
  "and_then (Inl e) f = Inl e"
  "and_then (Inr a) f = f a"
  by (simp_all add: and_then_def)

lemma map_ok_simps [simp]:
  "map_ok f (Inl e) = Inl e"
  "map_ok f (Inr a) = Inr (f a)"
  by (simp_all add: map_ok_def)

lemma map_err_simps [simp]:
  "map_err f (Inl e) = Inl (f e)"
  "map_err f (Inr a) = Inr a"
  by (simp_all add: map_err_def)

lemma and_then_Inr_iff [simp]:
  "and_then r f = Inr b \<longleftrightarrow> (\<exists>a. r = Inr a \<and> f a = Inr b)"
  by (cases r) auto

lemma map_ok_Inr_iff [simp]: "map_ok f r = Inr b \<longleftrightarrow> (\<exists>a. r = Inr a \<and> f a = b)"
  by (cases r) auto

lemma map_err_Inr_iff [simp]: "map_err f r = Inr b \<longleftrightarrow> r = Inr b"
  by (cases r) auto

lemma transpose_result_simps [simp]:
  "transpose_result f None = Inr None"
  "transpose_result f (Some a) = map_ok Some (f a)"
  by (simp_all add: transpose_result_def)

lemma collect_results_Inr:
  "collect_results f xs = Inr ys \<longleftrightarrow> list_all2 (\<lambda>x y. f x = Inr y) xs ys"
proof (induction xs arbitrary: ys)
  case Nil
  then show ?case by auto
next
  case (Cons x xs)
  then show ?case by (cases ys) auto
qed

lemma collect_results_all:
  "(\<And>x. x \<in> set xs \<Longrightarrow> f x = Inr (g x)) \<Longrightarrow> collect_results f xs = Inr (map g xs)"
  by (induction xs) auto

section \<open>Characters and strings\<close>

type_synonym uchar = nat
type_synonym str = "uchar list"

definition lit :: "string \<Rightarrow> str" where
  "lit s = map of_char s"

lemma lit_inject: "lit s = lit t \<longleftrightarrow> s = t"
  by (simp add: lit_def inj_map_eq_map inj_of_char)

text \<open>\<open>char::is_whitespace\<close>: the Unicode \<open>White_Space\<close> property.\<close>

definition is_whitespace :: "uchar \<Rightarrow> bool" where
  "is_whitespace c \<longleftrightarrow>
     9 \<le> c \<and> c \<le> 13 \<or> c = 32 \<or> c = 133 \<or> c = 160 \<or> c = 5760 \<or>
     8192 \<le> c \<and> c \<le> 8202 \<or> c = 8232 \<or> c = 8233 \<or> c = 8239 \<or> c = 8287 \<or> c = 12288"

definition is_ascii_lowercase :: "uchar \<Rightarrow> bool" where
  "is_ascii_lowercase c \<longleftrightarrow> 97 \<le> c \<and> c \<le> 122"

definition is_ascii_uppercase :: "uchar \<Rightarrow> bool" where
  "is_ascii_uppercase c \<longleftrightarrow> 65 \<le> c \<and> c \<le> 90"

definition is_ascii_digit :: "uchar \<Rightarrow> bool" where
  "is_ascii_digit c \<longleftrightarrow> 48 \<le> c \<and> c \<le> 57"

text \<open>\<open>char::len_utf8\<close> and \<open>str::len\<close>.\<close>

definition len_utf8 :: "uchar \<Rightarrow> nat" where
  "len_utf8 c = (if c < 128 then 1 else if c < 2048 then 2 else if c < 65536 then 3 else 4)"

definition byte_len :: "str \<Rightarrow> nat" where
  "byte_len s = sum_list (map len_utf8 s)"

lemma len_utf8_pos [simp]: "0 < len_utf8 c"
  by (simp add: len_utf8_def)

lemma byte_len_simps [simp]:
  "byte_len [] = 0"
  "byte_len (c # s) = len_utf8 c + byte_len s"
  "byte_len (s @ t) = byte_len s + byte_len t"
  by (simp_all add: byte_len_def)

lemma length_le_byte_len: "length s \<le> byte_len s"
proof (induction s)
  case (Cons c s)
  have "0 < len_utf8 c" by simp
  with Cons show ?case by (simp del: len_utf8_pos)
qed simp

lemma byte_len_ascii: "\<forall>c \<in> set s. c < 128 \<Longrightarrow> byte_len s = length s"
  by (induction s) (auto simp: len_utf8_def)

text \<open>
  \<open>&text[b..e]\<close> on byte offsets: a panic (\<open>None\<close>) when the range is backwards, runs past the
  end, or cuts a character.
\<close>

fun split_at_byte :: "str \<Rightarrow> nat \<Rightarrow> (str \<times> str) option" where
  "split_at_byte s 0 = Some ([], s)"
| "split_at_byte [] (Suc n) = None"
| "split_at_byte (c # s) (Suc n) =
     (if len_utf8 c \<le> Suc n
      then map_option (\<lambda>(a, b). (c # a, b)) (split_at_byte s (Suc n - len_utf8 c))
      else None)"

definition slice :: "str \<Rightarrow> nat \<Rightarrow> nat \<Rightarrow> str option" where
  "slice s b e =
     (if b \<le> e
      then (case split_at_byte s e of
              None \<Rightarrow> None
            | Some (front, _) \<Rightarrow> map_option snd (split_at_byte front b))
      else None)"

definition slice_from :: "str \<Rightarrow> nat \<Rightarrow> str option" where
  "slice_from s b = map_option snd (split_at_byte s b)"

lemma split_at_byte_Cons:
  "len_utf8 c \<le> n \<Longrightarrow>
   split_at_byte (c # s) n = map_option (\<lambda>(a, b). (c # a, b)) (split_at_byte s (n - len_utf8 c))"
  using len_utf8_pos [of c] by (cases n) auto

lemma split_at_byte_append [str_simps]: "split_at_byte (xs @ ys) (byte_len xs) = Some (xs, ys)"
  by (induction xs) (auto simp: split_at_byte_Cons)

lemma slice_append [str_simps]:
  "slice (xs @ ys @ zs) (byte_len xs) (byte_len xs + byte_len ys) = Some ys"
proof -
  have "split_at_byte ((xs @ ys) @ zs) (byte_len (xs @ ys)) = Some (xs @ ys, zs)"
    by (rule split_at_byte_append)
  then show ?thesis by (simp add: slice_def split_at_byte_append)
qed

lemma slice_from_append [str_simps]: "slice_from (xs @ ys) (byte_len xs) = Some ys"
  by (simp add: slice_from_def split_at_byte_append)

section \<open>Trimming, tokens, joining\<close>

definition trim_start :: "str \<Rightarrow> str" where
  "trim_start s = dropWhile is_whitespace s"

definition trim_end :: "str \<Rightarrow> str" where
  "trim_end s = rev (dropWhile is_whitespace (rev s))"

definition trim :: "str \<Rightarrow> str" where
  "trim s = trim_end (trim_start s)"

text \<open>
  The maximal runs of characters that are not separators, in order: \<open>split_whitespace\<close> when the
  separators are white space, and \<open>split(\<dots>)\<close> with its empty pieces dropped for any other class.
  The first argument of \<open>tokens_go\<close> is the run being read.
\<close>

fun tokens_go :: "(uchar \<Rightarrow> bool) \<Rightarrow> str \<Rightarrow> str \<Rightarrow> str list" where
  "tokens_go sep w [] = (if w = [] then [] else [w])"
| "tokens_go sep w (c # cs) =
     (if sep c then (if w = [] then tokens_go sep [] cs else w # tokens_go sep [] cs)
      else tokens_go sep (w @ [c]) cs)"

definition tokens :: "(uchar \<Rightarrow> bool) \<Rightarrow> str \<Rightarrow> str list" where
  "tokens sep s = tokens_go sep [] s"

abbreviation split_whitespace :: "str \<Rightarrow> str list" where
  "split_whitespace \<equiv> tokens is_whitespace"

fun join :: "str \<Rightarrow> str list \<Rightarrow> str" where
  "join sep [] = []"
| "join sep [x] = x"
| "join sep (x # y # ys) = x @ sep @ join sep (y # ys)"

abbreviation unwords :: "str list \<Rightarrow> str" where
  "unwords \<equiv> join [32]"

lemma tokens_go_sep:
  "sep c \<Longrightarrow> tokens_go sep w (xs @ c # ys) = tokens_go sep w xs @ tokens_go sep [] ys"
  by (induction xs arbitrary: w) auto

lemma tokens_Nil [simp, str_simps]: "tokens sep [] = []"
  by (simp add: tokens_def)

lemma tokens_sep [str_simps]:
  "sep c \<Longrightarrow> tokens sep (xs @ c # ys) = tokens sep xs @ tokens sep ys"
  by (simp add: tokens_def tokens_go_sep)

lemma tokens_sep_Cons [str_simps]: "sep c \<Longrightarrow> tokens sep (c # ys) = tokens sep ys"
  using tokens_sep [of sep c "[]" ys] by simp

lemma tokens_sep_snoc [str_simps]: "sep c \<Longrightarrow> tokens sep (xs @ [c]) = tokens sep xs"
  using tokens_sep [of sep c xs "[]"] by simp

lemma tokens_go_run:
  "\<forall>c \<in> set xs. \<not> sep c \<Longrightarrow> tokens_go sep w xs = (if w @ xs = [] then [] else [w @ xs])"
  by (induction xs arbitrary: w) auto

lemma tokens_run [str_simps]:
  "xs \<noteq> [] \<Longrightarrow> \<forall>c \<in> set xs. \<not> sep c \<Longrightarrow> tokens sep xs = [xs]"
  by (simp add: tokens_def tokens_go_run)

lemma tokens_seps [str_simps]: "\<forall>c \<in> set xs. sep c \<Longrightarrow> tokens sep (xs @ ys) = tokens sep ys"
  by (induction xs) (auto simp: tokens_sep_Cons)

lemma tokens_seps_right [str_simps]:
  "\<forall>c \<in> set ys. sep c \<Longrightarrow> tokens sep (xs @ ys) = tokens sep xs"
proof (induction ys arbitrary: xs)
  case (Cons c ys)
  have "tokens sep ((xs @ [c]) @ ys) = tokens sep (xs @ [c])"
    by (rule Cons.IH) (use Cons.prems in simp)
  with Cons.prems show ?case by (simp add: tokens_sep_snoc)
qed simp

lemma tokens_go_sound:
  "\<forall>c \<in> set w. \<not> sep c \<Longrightarrow> t \<in> set (tokens_go sep w xs) \<Longrightarrow> t \<noteq> [] \<and> (\<forall>c \<in> set t. \<not> sep c)"
proof (induction xs arbitrary: w)
  case Nil
  then show ?case by (simp split: if_splits)
next
  case (Cons c xs)
  show ?case
  proof (cases "sep c")
    case True
    have nil: "t \<in> set (tokens_go sep [] xs) \<Longrightarrow> t \<noteq> [] \<and> (\<forall>c \<in> set t. \<not> sep c)" by (rule Cons.IH) simp_all
    from True Cons.prems consider "t \<in> set (tokens_go sep [] xs)" | "t = w" "w \<noteq> []"
      by (auto split: if_splits)
    then show ?thesis using nil Cons.prems(1) by cases blast+
  next
    case False
    with Cons.prems show ?thesis by (intro Cons.IH [of "w @ [c]"]) auto
  qed
qed

lemma tokens_sound: "t \<in> set (tokens sep xs) \<Longrightarrow> t \<noteq> [] \<and> (\<forall>c \<in> set t. \<not> sep c)"
  unfolding tokens_def by (rule tokens_go_sound) simp_all

lemma join_Cons: "xs \<noteq> [] \<Longrightarrow> join sep (x # xs) = x @ sep @ join sep xs"
  by (cases xs) auto

lemma tokens_join [str_simps]:
  "sep c \<Longrightarrow> tokens sep (join [c] xs) = concat (map (tokens sep) xs)"
  by (induction "[c]" xs rule: join.induct) (auto simp: tokens_sep)

lemma tokens_unwords [str_simps]:
  "split_whitespace (unwords xs) = concat (map split_whitespace xs)"
  by (rule tokens_join) (simp add: is_whitespace_def)

lemma concat_map_tokens_words:
  "\<forall>w \<in> set ws. w \<noteq> [] \<and> (\<forall>c \<in> set w. \<not> sep c) \<Longrightarrow> concat (map (tokens sep) ws) = ws"
  by (induction ws) (auto simp: tokens_run)

lemma trim_start_split: "\<exists>l. s = l @ trim_start s \<and> (\<forall>c \<in> set l. is_whitespace c)"
  by (rule exI [of _ "takeWhile is_whitespace s"]) (auto simp: trim_start_def dest: set_takeWhileD)

lemma trim_end_split: "\<exists>r. s = trim_end s @ r \<and> (\<forall>c \<in> set r. is_whitespace c)"
proof (intro exI conjI)
  show "s = trim_end s @ rev (takeWhile is_whitespace (rev s))"
    by (metis trim_end_def rev_append rev_rev_ident takeWhile_dropWhile_id)
  show "\<forall>c \<in> set (rev (takeWhile is_whitespace (rev s))). is_whitespace c"
    by (auto dest: set_takeWhileD)
qed

lemma trim_split:
  obtains l r where "s = l @ trim s @ r"
    and "\<forall>c \<in> set l. is_whitespace c" and "\<forall>c \<in> set r. is_whitespace c"
  using trim_start_split [of s] trim_end_split [of "trim_start s"] by (metis trim_def)

lemma tokens_trim [str_simps]: "split_whitespace (trim s) = split_whitespace s"
  by (rule trim_split [of s]) (metis tokens_seps tokens_seps_right)

lemma length_trim: "length (trim s) \<le> length s"
  by (rule trim_split [of s]) (metis length_append le_add1 le_add2 le_trans)

lemma trim_eq_Nil_iff: "trim s = [] \<longleftrightarrow> (\<forall>c \<in> set s. is_whitespace c)"
proof
  assume "trim s = []"
  then show "\<forall>c \<in> set s. is_whitespace c"
    by (rule_tac trim_split [of s]) (metis UnE append_Nil set_append)
next
  assume "\<forall>c \<in> set s. is_whitespace c"
  then have "trim_start s = []" by (simp add: trim_start_def)
  then show "trim s = []" by (simp add: trim_def trim_end_def)
qed

lemma tokens_blank: "\<forall>c \<in> set s. is_whitespace c \<Longrightarrow> split_whitespace s = []"
  using tokens_seps [of s is_whitespace "[]"] by simp

lemma tokens_blank_between:
  assumes "\<forall>c \<in> set l. is_whitespace c" and "l \<noteq> []"
  shows "split_whitespace (a @ l @ b) = split_whitespace a @ split_whitespace b"
proof -
  from assms(2) obtain c l' where l: "l = c # l'" by (cases l) auto
  with assms(1) have "split_whitespace (a @ c # l' @ b)
      = split_whitespace a @ split_whitespace (l' @ b)"
    by (intro tokens_sep) simp
  with assms(1) l show ?thesis by (simp add: tokens_seps)
qed

section \<open>Character positions\<close>

text \<open>\<open>str::char_indices\<close>: every character with the byte offset it starts at.\<close>

fun char_indices_from :: "nat \<Rightarrow> str \<Rightarrow> (nat \<times> uchar) list" where
  "char_indices_from off [] = []"
| "char_indices_from off (c # s) = (off, c) # char_indices_from (off + len_utf8 c) s"

abbreviation char_indices :: "str \<Rightarrow> (nat \<times> uchar) list" where
  "char_indices \<equiv> char_indices_from 0"

text \<open>\<open>split_inclusive\<close>: the separator stays at the end of each piece; no piece is empty.\<close>

fun split_inclusive_go :: "uchar \<Rightarrow> str \<Rightarrow> str \<Rightarrow> str list" where
  "split_inclusive_go d w [] = (if w = [] then [] else [w])"
| "split_inclusive_go d w (c # cs) =
     (if c = d then (w @ [c]) # split_inclusive_go d [] cs
      else split_inclusive_go d (w @ [c]) cs)"

definition split_inclusive :: "uchar \<Rightarrow> str \<Rightarrow> str list" where
  "split_inclusive d s = split_inclusive_go d [] s"

lemma split_inclusive_go_concat: "concat (split_inclusive_go d w s) = w @ s"
  by (induction d w s rule: split_inclusive_go.induct) auto

lemma split_inclusive_concat [str_simps]: "concat (split_inclusive d s) = s"
  by (simp add: split_inclusive_def split_inclusive_go_concat)

lemma split_inclusive_go_nonempty: "[] \<notin> set (split_inclusive_go d w s)"
  by (induction d w s rule: split_inclusive_go.induct) auto

lemma split_inclusive_nonempty: "[] \<notin> set (split_inclusive d s)"
  by (simp add: split_inclusive_def split_inclusive_go_nonempty)

section \<open>Lists\<close>

text \<open>Appending the pieces of every element; a panic in one of them is a panic of the loop.\<close>

fun flat_map_opt :: "('a \<Rightarrow> 'b list option) \<Rightarrow> 'a list \<Rightarrow> 'b list option" where
  "flat_map_opt f [] = Some []"
| "flat_map_opt f (x # xs) =
     (case f x of
        None \<Rightarrow> None
      | Some ys \<Rightarrow> map_option (\<lambda>zs. ys @ zs) (flat_map_opt f xs))"

lemma flat_map_opt_Some:
  assumes "\<And>x. x \<in> set xs \<Longrightarrow> \<exists>ys. f x = Some ys \<and> list_all P ys \<and> concat (map g ys) = h x"
  shows "\<exists>zs. flat_map_opt f xs = Some zs \<and> list_all P zs \<and> concat (map g zs) = concat (map h xs)"
  using assms
proof (induction xs)
  case (Cons x xs)
  obtain ys where "f x = Some ys" "list_all P ys" "concat (map g ys) = h x"
    using Cons.prems [of x] by auto
  moreover obtain zs where "flat_map_opt f xs = Some zs" "list_all P zs"
      "concat (map g zs) = concat (map h xs)"
    using Cons.IH Cons.prems by auto
  ultimately show ?case by auto
qed simp

text \<open>\<open>Vec::dedup\<close>-free uniqueness as the program writes it: keep the first of equal values.\<close>

fun keep_first :: "'a list \<Rightarrow> 'a list \<Rightarrow> 'a list" where
  "keep_first seen [] = []"
| "keep_first seen (x # xs) =
     (if x \<in> set seen then keep_first seen xs else x # keep_first (x # seen) xs)"

lemma set_keep_first: "set (keep_first seen xs) = set xs - set seen"
  by (induction seen xs rule: keep_first.induct) auto

lemma distinct_keep_first: "distinct (keep_first seen xs)"
  by (induction seen xs rule: keep_first.induct) (auto simp: set_keep_first)

end
