(* ===== verification/Chunk.thy ===== *)
theory Chunk
  imports Prelude
begin

text \<open>
  Episode chunking, \<open>crates/agmem-core/src/chunk.rs\<close>: text is cut at paragraphs, then sentences,
  then words, and packed up to a character budget. The source walks byte offsets and slices the
  text with them, so every function here is partial exactly where the slice could panic, and the
  theorems say that it never does, that nothing but white space is lost, and that a chunk over
  budget is one unbroken run.
\<close>

definition target_chars :: nat where
  "target_chars = 1500"

section \<open>Words\<close>

fun words_loop ::
  "str \<Rightarrow> (nat \<times> uchar) list \<Rightarrow> nat option \<Rightarrow> (nat \<times> str) list \<Rightarrow> (nat \<times> str) list option" where
  "words_loop text [] start out =
     (case start of
        None \<Rightarrow> Some out
      | Some begin' \<Rightarrow> map_option (\<lambda>w. out @ [(begin', w)]) (slice_from text begin'))"
| "words_loop text ((index, c) # rest) start out =
     (if is_whitespace c then
        (case start of
           Some begin' \<Rightarrow>
             (case slice text begin' index of
                None \<Rightarrow> None
              | Some w \<Rightarrow> words_loop text rest None (out @ [(begin', w)]))
         | None \<Rightarrow> words_loop text rest None out)
      else words_loop text rest (case start of None \<Rightarrow> Some index | Some b \<Rightarrow> Some b) out)"

definition words :: "str \<Rightarrow> (nat \<times> str) list option" where
  "words text = words_loop text (char_indices text) None []"

section \<open>Packing words\<close>

fun wrap_loop ::
  "str \<Rightarrow> (nat \<times> str) list \<Rightarrow> nat option \<Rightarrow> nat \<Rightarrow> nat \<Rightarrow> str list \<Rightarrow> str list option" where
  "wrap_loop text [] start end' taken wrapped =
     (case start of
        None \<Rightarrow> Some wrapped
      | Some b \<Rightarrow> map_option (\<lambda>p. wrapped @ [p]) (slice text b end'))"
| "wrap_loop text ((off, word) # rest) start end' taken wrapped =
     (let len = length word; next = off + byte_len word in
      case start of
        Some b \<Rightarrow>
          (case slice text end' off of
             None \<Rightarrow> None
           | Some blank \<Rightarrow>
               let gap = length blank in
               if taken + gap + len > target_chars
               then (case slice text b end' of
                       None \<Rightarrow> None
                     | Some piece \<Rightarrow>
                         wrap_loop text rest (Some off) next len (wrapped @ [piece]))
               else wrap_loop text rest (Some b) next (taken + gap + len) wrapped)
      | None \<Rightarrow> wrap_loop text rest (Some off) next len wrapped)"

definition wrap_words :: "str \<Rightarrow> str list option" where
  "wrap_words text =
     (case words text of None \<Rightarrow> None | Some ws \<Rightarrow> wrap_loop text ws None 0 0 [])"

section \<open>Sentences\<close>

definition is_stop :: "uchar \<Rightarrow> bool" where
  "is_stop c \<longleftrightarrow> c = 46 \<or> c = 33 \<or> c = 63"

definition push_nonempty :: "str list \<Rightarrow> str \<Rightarrow> str list" where
  "push_nonempty out s = (if s \<noteq> [] then out @ [s] else out)"

fun sentences_loop ::
  "str \<Rightarrow> (nat \<times> uchar) list \<Rightarrow> nat \<Rightarrow> str list \<Rightarrow> str list option" where
  "sentences_loop paragraph [] start out =
     map_option (\<lambda>t. push_nonempty out (trim t)) (slice_from paragraph start)"
| "sentences_loop paragraph ((index, c) # rest) start out =
     (if \<not> is_stop c then sentences_loop paragraph rest start out
      else (case rest of
              [] \<Rightarrow> sentences_loop paragraph rest start out
            | (next_index, next) # _ \<Rightarrow>
                if \<not> is_whitespace next then sentences_loop paragraph rest start out
                else (case slice paragraph start (index + len_utf8 c) of
                        None \<Rightarrow> None
                      | Some s \<Rightarrow>
                          sentences_loop paragraph rest next_index (push_nonempty out (trim s)))))"

definition sentences :: "str \<Rightarrow> str list option" where
  "sentences paragraph = sentences_loop paragraph (char_indices paragraph) 0 []"

section \<open>Paragraphs\<close>

fun paragraphs_loop ::
  "str \<Rightarrow> str list \<Rightarrow> nat option \<Rightarrow> nat \<Rightarrow> str list \<Rightarrow> str list option" where
  "paragraphs_loop text [] start off out =
     (case start of
        None \<Rightarrow> Some out
      | Some b \<Rightarrow> map_option (\<lambda>p. out @ [trim p]) (slice_from text b))"
| "paragraphs_loop text (line # rest) start off out =
     (if trim line = [] then
        (case start of
           Some b \<Rightarrow>
             (case slice text b off of
                None \<Rightarrow> None
              | Some p \<Rightarrow> paragraphs_loop text rest None (off + byte_len line) (out @ [trim p]))
         | None \<Rightarrow> paragraphs_loop text rest None (off + byte_len line) out)
      else paragraphs_loop text rest (case start of None \<Rightarrow> Some off | Some b \<Rightarrow> Some b)
             (off + byte_len line) out)"

definition paragraphs :: "str \<Rightarrow> str list option" where
  "paragraphs text =
     map_option (filter (\<lambda>p. p \<noteq> [])) (paragraphs_loop text (split_inclusive 10 text) None 0 [])"

section \<open>Units and chunks\<close>

definition sentence_units :: "str \<Rightarrow> str list option" where
  "sentence_units sentence =
     (if length sentence \<le> target_chars then Some [sentence] else wrap_words sentence)"

definition paragraph_units :: "str \<Rightarrow> str list option" where
  "paragraph_units paragraph =
     (if length paragraph \<le> target_chars then Some [paragraph]
      else (case sentences paragraph of
              None \<Rightarrow> None
            | Some ss \<Rightarrow> flat_map_opt sentence_units ss))"

definition units :: "str \<Rightarrow> str list option" where
  "units text =
     (case paragraphs text of None \<Rightarrow> None | Some ps \<Rightarrow> flat_map_opt paragraph_units ps)"

fun chunk_loop :: "str list \<Rightarrow> str \<Rightarrow> nat \<Rightarrow> str list \<Rightarrow> str list" where
  "chunk_loop [] current taken chunks =
     (if current \<noteq> [] then chunks @ [current] else chunks)"
| "chunk_loop (unit # rest) current taken chunks =
     (let len = length unit in
      if taken > 0 \<and> taken + 1 + len > target_chars
      then chunk_loop rest unit len (chunks @ [current])
      else if taken > 0
      then chunk_loop rest (current @ [32] @ unit) (taken + 1 + len) chunks
      else chunk_loop rest (current @ unit) (taken + len) chunks)"

definition chunk :: "str \<Rightarrow> str list option" where
  "chunk text = map_option (\<lambda>us. chunk_loop us [] 0 []) (units text)"

section \<open>How words lie in a text\<close>

text \<open>
  \<open>laid_out pre rest ws\<close>: \<open>ws\<close> are the words of \<open>rest\<close> with their byte offsets in
  \<open>pre @ rest\<close>. The relation carries the positions the wrapping loop slices at.
\<close>

inductive laid_out :: "str \<Rightarrow> str \<Rightarrow> (nat \<times> str) list \<Rightarrow> bool" where
  blank: "\<forall>c \<in> set rest. is_whitespace c \<Longrightarrow> laid_out pre rest []"
| word: "laid_out (pre @ g @ w) rest ws \<Longrightarrow> \<forall>c \<in> set g. is_whitespace c \<Longrightarrow> w \<noteq> [] \<Longrightarrow>
     \<forall>c \<in> set w. \<not> is_whitespace c \<Longrightarrow> rest = [] \<or> is_whitespace (hd rest) \<Longrightarrow>
     laid_out pre (g @ w @ rest) ((byte_len (pre @ g), w) # ws)"

inductive_cases laid_out_ConsE: "laid_out pre rest (w # ws)"
inductive_cases laid_out_NilE: "laid_out pre rest []"

lemma laid_out_skip:
  assumes "laid_out (pre @ [c]) rest ws" and "is_whitespace c"
  shows "laid_out pre (c # rest) ws"
  using assms(1)
proof cases
  case blank
  with assms(2) show ?thesis by (simp add: laid_out.blank)
next
  case (word g w rest' ws')
  then have "laid_out (pre @ (c # g) @ w) rest' ws'" by simp
  with word(4-7) assms(2)
  have "laid_out pre ((c # g) @ w @ rest') ((byte_len (pre @ c # g), w) # ws')"
    by (intro laid_out.word) auto
  with word show ?thesis by simp
qed

lemma words_loop_laid_out:
  shows "text = pre @ rest \<Longrightarrow>
      \<exists>ws. words_loop text (char_indices_from (byte_len pre) rest) None out = Some (out @ ws)
        \<and> laid_out pre rest ws"
    and "text = pre @ w @ rest \<Longrightarrow> w \<noteq> [] \<Longrightarrow> \<forall>c \<in> set w. \<not> is_whitespace c \<Longrightarrow>
      \<exists>ws. words_loop text (char_indices_from (byte_len (pre @ w)) rest) (Some (byte_len pre)) out
          = Some (out @ ws) \<and> laid_out pre (w @ rest) ws"
proof (induction rest arbitrary: pre w out)
  case Nil
  {
    case 1
    then show ?case by (auto intro: laid_out.blank)
  next
    case 2
    have "laid_out pre ([] @ w @ []) ((byte_len (pre @ []), w) # [])"
      by (rule laid_out.word) (use 2 in \<open>auto intro: laid_out.blank\<close>)
    with 2 show ?case by (auto simp: slice_from_append)
  }
next
  case (Cons c rest)
  {
    case 1
    then have tx: "text = (pre @ [c]) @ rest" by simp
    show ?case
    proof (cases "is_whitespace c")
      case True
      with Cons.IH(1) [OF tx, of out] show ?thesis by (auto intro: laid_out_skip)
    next
      case False
      from 1 have "text = pre @ [c] @ rest" by simp
      from Cons.IH(2) [OF this, of out] False show ?thesis by auto
    qed
  next
    case 2
    show ?case
    proof (cases "is_whitespace c")
      case True
      from 2 have "slice text (byte_len pre) (byte_len pre + byte_len w) = Some w"
        by (simp add: slice_append)
      moreover from 2 have "text = (pre @ w @ [c]) @ rest" by simp
      then obtain ws where
        "words_loop text (char_indices_from (byte_len (pre @ w @ [c])) rest) None
             (out @ [(byte_len pre, w)]) = Some ((out @ [(byte_len pre, w)]) @ ws)"
        and "laid_out (pre @ w @ [c]) rest ws"
        using Cons.IH(1) by blast
      moreover from this(2) True have "laid_out (pre @ w) (c # rest) ws"
        by (intro laid_out_skip) simp_all
      then have "laid_out pre ([] @ w @ c # rest) ((byte_len (pre @ []), w) # ws)"
        by (intro laid_out.word) (use 2 True in auto)
      ultimately show ?thesis using True by (auto simp: add.assoc)
    next
      case False
      from 2 have "text = pre @ (w @ [c]) @ rest" by simp
      from Cons.IH(2) [OF this, of out] 2 False show ?thesis by (auto simp: add.assoc)
    qed
  }
qed

lemma words_laid_out: "\<exists>ws. words text = Some ws \<and> laid_out [] text ws"
  using words_loop_laid_out(1) [of "text" "[]" "text" "[]"] by (simp add: words_def)

section \<open>Wrapping\<close>

text \<open>What a piece may be: within the budget, or one run with nowhere to cut.\<close>

definition fits :: "str \<Rightarrow> bool" where
  "fits p \<longleftrightarrow> p \<noteq> [] \<and> (length p \<le> target_chars \<or> (\<forall>c \<in> set p. \<not> is_whitespace c))"

lemma wrap_loop_correct:
  assumes "laid_out (pre @ piece) rest ws" and "text = pre @ piece @ rest"
    and "fits piece" and "rest = [] \<or> is_whitespace (hd rest)"
  shows "\<exists>ps. wrap_loop text ws (Some (byte_len pre)) (byte_len (pre @ piece)) (length piece) out
      = Some (out @ ps) \<and> list_all fits ps
      \<and> concat (map split_whitespace ps) = split_whitespace (piece @ rest)"
  using assms
proof (induction ws arbitrary: pre piece rest out rule: list.induct)
  case Nil
  from Nil.prems(1) have "\<forall>c \<in> set rest. is_whitespace c" by (rule laid_out_NilE)
  with Nil.prems show ?case by (auto simp: slice_append tokens_seps_right)
next
  case (Cons ow ws)
  from Cons.prems(1) obtain g w rest' where
    ow: "ow = (byte_len ((pre @ piece) @ g), w)" and rest: "rest = g @ w @ rest'"
    and tail: "laid_out ((pre @ piece) @ g @ w) rest' ws"
    and g: "\<forall>c \<in> set g. is_whitespace c"
    and w: "w \<noteq> []" "\<forall>c \<in> set w. \<not> is_whitespace c"
    and rest': "rest' = [] \<or> is_whitespace (hd rest')"
    by (rule laid_out_ConsE) auto
  have g_ne: "g \<noteq> []"
    using Cons.prems(4) rest w by (cases w) auto
  have tx: "text = (pre @ piece) @ g @ w @ rest'" "text = pre @ piece @ g @ w @ rest'"
    using Cons.prems(2) rest by simp_all
  have gap: "slice text (byte_len (pre @ piece)) (byte_len ((pre @ piece) @ g)) = Some g"
    using slice_append [of "pre @ piece" g "w @ rest'"] tx by (simp add: add.assoc)
  have cut: "slice text (byte_len pre) (byte_len (pre @ piece)) = Some piece"
    using slice_append [of pre piece "g @ w @ rest'"] tx by simp
  have split: "split_whitespace (piece @ rest)
      = split_whitespace piece @ split_whitespace (w @ rest')"
    using tokens_blank_between [OF g g_ne, of piece "w @ rest'"] rest by simp
  have fits_w: "fits w" using w by (simp add: fits_def)
  show ?case
  proof (cases "length piece + length g + length w > target_chars")
    case True
    have "laid_out ((pre @ piece @ g) @ w) rest' ws" "text = (pre @ piece @ g) @ w @ rest'"
      using tail tx by simp_all
    from Cons.IH [OF this fits_w rest', of "out @ [piece]"] obtain ps where
      "wrap_loop text ws (Some (byte_len (pre @ piece @ g))) (byte_len ((pre @ piece @ g) @ w))
         (length w) (out @ [piece]) = Some ((out @ [piece]) @ ps)"
      and "list_all fits ps" "concat (map split_whitespace ps) = split_whitespace (w @ rest')"
      by blast
    then show ?thesis
      using True gap cut split ow Cons.prems(3) by (intro exI [of _ "piece # ps"]) (simp add: add.assoc)
  next
    case False
    then have fits': "fits (piece @ g @ w)" using w by (simp add: fits_def)
    have "laid_out (pre @ (piece @ g @ w)) rest' ws" "text = pre @ (piece @ g @ w) @ rest'"
      using tail tx by simp_all
    from Cons.IH [OF this fits' rest', of out] obtain ps where
      "wrap_loop text ws (Some (byte_len pre)) (byte_len (pre @ piece @ g @ w))
         (length (piece @ g @ w)) out = Some (out @ ps)"
      and "list_all fits ps"
      "concat (map split_whitespace ps) = split_whitespace ((piece @ g @ w) @ rest')"
      by blast
    then show ?thesis
      using False gap ow rest by (intro exI [of _ ps]) (simp add: add.assoc)
  qed
qed

lemma wrap_words_correct:
  "\<exists>ps. wrap_words text = Some ps \<and> list_all fits ps
     \<and> concat (map split_whitespace ps) = split_whitespace text"
proof -
  obtain ws where ws: "words text = Some ws" "laid_out [] text ws"
    using words_laid_out by blast
  show ?thesis
  proof (cases ws)
    case Nil
    with ws(2) have "split_whitespace text = []" by (auto elim: laid_out_NilE intro: tokens_blank)
    with ws Nil show ?thesis by (simp add: wrap_words_def)
  next
    case (Cons ow ws')
    with ws(2) obtain g w rest where
      ow: "ow = (byte_len g, w)" and tx: "text = g @ w @ rest"
      and tail: "laid_out (g @ w) rest ws'" and g: "\<forall>c \<in> set g. is_whitespace c"
      and w: "w \<noteq> []" "\<forall>c \<in> set w. \<not> is_whitespace c"
      and rest: "rest = [] \<or> is_whitespace (hd rest)"
      by (auto elim: laid_out_ConsE)
    have "fits w" using w by (simp add: fits_def)
    from wrap_loop_correct [OF tail tx this rest, of "[]"] show ?thesis
      using ws Cons ow g tx by (simp add: wrap_words_def tokens_seps)
  qed
qed

section \<open>Sentences and paragraphs lose only white space\<close>

lemma concat_push_nonempty [simp]:
  "concat (map split_whitespace (push_nonempty out s))
     = concat (map split_whitespace out) @ split_whitespace s"
  by (simp add: push_nonempty_def)

lemma list_all_push_nonempty:
  "list_all (\<lambda>s. s \<noteq> []) out \<Longrightarrow> list_all (\<lambda>s. s \<noteq> []) (push_nonempty out s)"
  by (simp add: push_nonempty_def)

lemma sentences_loop_correct:
  assumes "paragraph = pre @ cur @ rest" and "list_all (\<lambda>s. s \<noteq> []) out"
  shows "\<exists>ss. sentences_loop paragraph (char_indices_from (byte_len (pre @ cur)) rest)
        (byte_len pre) out = Some ss
      \<and> list_all (\<lambda>s. s \<noteq> []) ss
      \<and> concat (map split_whitespace ss)
          = concat (map split_whitespace out) @ split_whitespace (cur @ rest)"
  using assms
proof (induction rest arbitrary: pre cur out)
  case Nil
  then show ?case
    by (simp add: slice_from_append tokens_trim list_all_push_nonempty)
next
  case (Cons c rest)
  have go: "paragraph = pre @ (cur @ [c]) @ rest" using Cons.prems by simp
  note continue = Cons.IH [OF go Cons.prems(2)]
  show ?case
  proof (cases "is_stop c \<and> rest \<noteq> [] \<and> is_whitespace (hd rest)")
    case False
    then have "sentences_loop paragraph (char_indices_from (byte_len (pre @ cur)) (c # rest))
        (byte_len pre) out
      = sentences_loop paragraph (char_indices_from (byte_len (pre @ cur @ [c])) rest)
          (byte_len pre) out"
      by (cases rest) (auto simp: add.assoc)
    with continue show ?thesis by simp
  next
    case True
    then obtain d rest' where rest: "rest = d # rest'" "is_whitespace d" by (cases rest) auto
    have cut: "slice paragraph (byte_len pre) (byte_len pre + byte_len (cur @ [c]))
        = Some (cur @ [c])"
      using go slice_append [of pre "cur @ [c]" rest] by simp
    have "paragraph = (pre @ cur @ [c]) @ [] @ rest" using go by simp
    from Cons.IH [OF this list_all_push_nonempty [OF Cons.prems(2), of "trim (cur @ [c])"]]
    obtain ss where
      "sentences_loop paragraph (char_indices_from (byte_len (pre @ cur @ [c])) rest)
         (byte_len (pre @ cur @ [c])) (push_nonempty out (trim (cur @ [c]))) = Some ss"
      and "list_all (\<lambda>s. s \<noteq> []) ss"
      and "concat (map split_whitespace ss) = concat (map split_whitespace out)
          @ split_whitespace (cur @ [c]) @ split_whitespace rest"
      by (auto simp: tokens_trim)
    moreover have "split_whitespace (cur @ c # rest)
        = split_whitespace (cur @ [c]) @ split_whitespace rest"
      using tokens_sep [of is_whitespace d "cur @ [c]" rest'] rest by (simp add: tokens_sep_Cons)
    ultimately show ?thesis using True rest cut by (simp add: add.assoc)
  qed
qed

lemma sentences_correct:
  "\<exists>ss. sentences p = Some ss \<and> list_all (\<lambda>s. s \<noteq> []) ss
     \<and> concat (map split_whitespace ss) = split_whitespace p"
  using sentences_loop_correct [of p "[]" "[]" p "[]"] by (simp add: sentences_def)

lemma paragraphs_loop_correct:
  assumes "text = pre @ cur @ concat lines" and "[] \<notin> set lines"
    and "start = (if cur = [] then None else Some (byte_len pre))"
  shows "\<exists>ps. paragraphs_loop text lines start (byte_len (pre @ cur)) out = Some (out @ ps)
      \<and> concat (map split_whitespace ps) = split_whitespace (cur @ concat lines)"
  using assms
proof (induction lines arbitrary: pre cur start out)
  case Nil
  then show ?case by (auto simp: slice_from_append tokens_trim)
next
  case (Cons line lines)
  show ?case
  proof (cases "trim line = []")
    case True
    then have blank: "\<forall>c \<in> set line. is_whitespace c" by (simp add: trim_eq_Nil_iff)
    have "text = (pre @ cur @ line) @ [] @ concat lines" using Cons.prems(1) by simp
    note next' = Cons.IH [OF this _ refl]
    have split: "split_whitespace (cur @ line @ concat lines)
        = split_whitespace cur @ split_whitespace (concat lines)"
      using blank Cons.prems(2) by (intro tokens_blank_between) auto
    have cut: "slice text (byte_len pre) (byte_len pre + byte_len cur) = Some cur"
      using Cons.prems(1) by (simp add: slice_append)
    show ?thesis
    proof (cases "cur = []")
      case True
      with \<open>trim line = []\<close> next' [of out] Cons.prems split show ?thesis by (simp add: add.assoc)
    next
      case False
      with \<open>trim line = []\<close> next' [of "out @ [trim cur]"] Cons.prems split cut
      show ?thesis by (auto simp: add.assoc tokens_trim)
    qed
  next
    case False
    have "line \<noteq> []" using Cons.prems(2) by auto
    have "text = pre @ (cur @ line) @ concat lines" using Cons.prems(1) by simp
    from Cons.IH [OF this _ refl, of out] False \<open>line \<noteq> []\<close> Cons.prems
    show ?thesis by (auto simp: add.assoc)
  qed
qed

lemma concat_map_filter_nonempty:
  "concat (map split_whitespace (filter (\<lambda>p. p \<noteq> []) ps)) = concat (map split_whitespace ps)"
  by (induction ps) auto

lemma paragraphs_correct:
  "\<exists>ps. paragraphs text = Some ps \<and> list_all (\<lambda>p. p \<noteq> []) ps
     \<and> concat (map split_whitespace ps) = split_whitespace text"
  using paragraphs_loop_correct [of "text" "[]" "[]" "split_inclusive 10 text" None "[]"]
  by (auto simp: paragraphs_def split_inclusive_concat split_inclusive_nonempty
      concat_map_filter_nonempty list_all_iff)

section \<open>Units and chunks\<close>

lemma sentence_units_correct:
  "s \<noteq> [] \<Longrightarrow> \<exists>us. sentence_units s = Some us \<and> list_all fits us
     \<and> concat (map split_whitespace us) = split_whitespace s"
  using wrap_words_correct [of s] by (auto simp: sentence_units_def fits_def)

lemma paragraph_units_correct:
  assumes "p \<noteq> []"
  shows "\<exists>us. paragraph_units p = Some us \<and> list_all fits us
     \<and> concat (map split_whitespace us) = split_whitespace p"
proof (cases "length p \<le> target_chars")
  case True
  with assms show ?thesis by (simp add: paragraph_units_def fits_def)
next
  case False
  obtain ss where ss: "sentences p = Some ss" "list_all (\<lambda>s. s \<noteq> []) ss"
    "concat (map split_whitespace ss) = split_whitespace p"
    using sentences_correct by blast
  have "\<exists>us. flat_map_opt sentence_units ss = Some us \<and> list_all fits us
      \<and> concat (map split_whitespace us) = concat (map split_whitespace ss)"
    by (rule flat_map_opt_Some) (use ss(2) sentence_units_correct in \<open>auto simp: list_all_iff\<close>)
  with ss False show ?thesis by (simp add: paragraph_units_def)
qed

lemma units_correct:
  "\<exists>us. units text = Some us \<and> list_all fits us
     \<and> concat (map split_whitespace us) = split_whitespace text"
proof -
  obtain ps where ps: "paragraphs text = Some ps" "list_all (\<lambda>p. p \<noteq> []) ps"
    "concat (map split_whitespace ps) = split_whitespace text"
    using paragraphs_correct by blast
  have "\<exists>us. flat_map_opt paragraph_units ps = Some us \<and> list_all fits us
      \<and> concat (map split_whitespace us) = concat (map split_whitespace ps)"
    by (rule flat_map_opt_Some) (use ps(2) paragraph_units_correct in \<open>auto simp: list_all_iff\<close>)
  with ps show ?thesis by (simp add: units_def)
qed

lemma chunk_loop_correct:
  assumes "list_all fits us" and "list_all fits chunks" and "current = [] \<or> fits current"
    and "taken = length current"
  shows "list_all fits (chunk_loop us current taken chunks)
    \<and> concat (map split_whitespace (chunk_loop us current taken chunks))
        = concat (map split_whitespace chunks) @ split_whitespace current
          @ concat (map split_whitespace us)"
  using assms
proof (induction us arbitrary: current taken chunks)
  case Nil
  then show ?case by auto
next
  case (Cons u us)
  have joined: "split_whitespace (current @ [32] @ u) = split_whitespace current @ split_whitespace u"
    by (rule tokens_blank_between) (simp_all add: is_whitespace_def)
  consider (flush) "current \<noteq> []" "length current + 1 + length u > target_chars"
    | (pack) "current \<noteq> []" "length current + 1 + length u \<le> target_chars"
    | (first) "current = []"
    by linarith
  then show ?case
  proof cases
    case flush
    with Cons.prems Cons.IH [of "chunks @ [current]" u "length u"] show ?thesis by simp
  next
    case pack
    then have "fits (current @ [32] @ u)" by (simp add: fits_def)
    with pack Cons.prems joined
      Cons.IH [of chunks "current @ [32] @ u" "length current + 1 + length u"]
    show ?thesis by simp
  next
    case first
    with Cons.prems Cons.IH [of chunks u "length u"] show ?thesis by simp
  qed
qed

lemma chunk_correct:
  "\<exists>cs. chunk text = Some cs \<and> list_all fits cs
     \<and> concat (map split_whitespace cs) = split_whitespace text"
proof -
  obtain us where "units text = Some us" "list_all fits us"
    "concat (map split_whitespace us) = split_whitespace text"
    using units_correct by blast
  with chunk_loop_correct [of us "[]" "[]" 0] show ?thesis by (simp add: chunk_def)
qed

section \<open>Properties\<close>

text \<open>C2: Chunking never panics on a byte index and loses nothing: the words of the chunks,
  concatenated in order, are the words of the text.\<close>

theorem chunk_lossless:
  "\<exists>cs. chunk t = Some cs \<and> concat (map split_whitespace cs) = split_whitespace t"
  using chunk_correct [of t] by blast

text \<open>C12: Every chunk is non-empty and within the target, unless it is a single run with no
  blank in it to cut at.\<close>

theorem chunk_budget:
  "\<exists>cs. chunk t = Some cs \<and> list_all (\<lambda>c. c \<noteq> [] \<and>
     (if list_ex is_whitespace c then length c \<le> target_chars else True)) cs"
proof -
  obtain cs where "chunk t = Some cs" "list_all fits cs" using chunk_correct by blast
  then show ?thesis by (auto simp: fits_def list_all_iff list_ex_iff)
qed

end
