(* ===== verification/Model.thy ===== *)
theory Model
  imports Prelude "HOL-Library.List_Lexorder"
begin

text \<open>
  The domain vocabulary: \<open>crates/agmem-core/src/model.rs\<close> and \<open>error.rs\<close>. Validated newtypes
  (space names, ULID record ids) with their checked constructors, the enums with their row
  spellings and parsers, and the record types the store and the tools exchange.

  An instant (\<open>jiff::Timestamp\<close>) is an integer count of nanoseconds since the epoch. A finite
  \<open>f64\<close> is a real number; where the code inspects infinities and NaN (the vectors) the values are
  of type \<open>flt\<close>, which has them.
\<close>

type_synonym timestamp = int

datatype flt = Fin real | PInf | NInf | NaN

section \<open>Errors\<close>

datatype core_error =
    InvalidSpaceName str
  | InvalidRecordId str
  | UnknownVariant str str

section \<open>Space names\<close>

datatype space_name = SpaceName str

definition space_max_len :: nat where
  "space_max_len = 64"

definition space_char :: "uchar \<Rightarrow> bool" where
  "space_char c \<longleftrightarrow> is_ascii_lowercase c \<or> is_ascii_digit c \<or> c = 45 \<or> c = 95"

definition space_name_new :: "str \<Rightarrow> core_error + space_name" where
  "space_name_new name =
     (if name \<noteq> [] \<and> byte_len name \<le> space_max_len \<and> list_all space_char name
      then Inr (SpaceName name) else Inl (InvalidSpaceName name))"

definition space_name_user :: space_name where
  "space_name_user = SpaceName (lit ''user'')"

fun space_as_str :: "space_name \<Rightarrow> str" where
  "space_as_str (SpaceName s) = s"

definition space_from_str :: "str \<Rightarrow> core_error + space_name" where
  "space_from_str s = space_name_new s"

definition space_ok :: "space_name \<Rightarrow> bool" where
  "space_ok n \<longleftrightarrow> space_name_new (space_as_str n) = Inr n"

section \<open>Record ids\<close>

datatype memory_id = MemoryId str
datatype episode_id = EpisodeId str
datatype chunk_id = ChunkId str

definition ulid_len :: nat where
  "ulid_len = 26"

definition is_ulid :: "str \<Rightarrow> bool" where
  "is_ulid candidate \<longleftrightarrow>
     byte_len candidate = ulid_len \<and>
     list_all (\<lambda>c. is_ascii_digit c \<or> is_ascii_uppercase c) candidate"

text \<open>The macro \<open>record_id!\<close> instantiated three times; the constructor is its only argument.\<close>

definition record_id_new :: "(str \<Rightarrow> 'i) \<Rightarrow> str \<Rightarrow> core_error + 'i" where
  "record_id_new mk s = (if is_ulid s then Inr (mk s) else Inl (InvalidRecordId s))"

definition memory_id_new :: "str \<Rightarrow> core_error + memory_id" where
  "memory_id_new = record_id_new MemoryId"

definition episode_id_new :: "str \<Rightarrow> core_error + episode_id" where
  "episode_id_new = record_id_new EpisodeId"

definition chunk_id_new :: "str \<Rightarrow> core_error + chunk_id" where
  "chunk_id_new = record_id_new ChunkId"

fun memory_id_str :: "memory_id \<Rightarrow> str" where
  "memory_id_str (MemoryId s) = s"

fun episode_id_str :: "episode_id \<Rightarrow> str" where
  "episode_id_str (EpisodeId s) = s"

fun chunk_id_str :: "chunk_id \<Rightarrow> str" where
  "chunk_id_str (ChunkId s) = s"

lemma id_of_str [simp]:
  "MemoryId (memory_id_str i) = i"
  "EpisodeId (episode_id_str j) = j"
  "ChunkId (chunk_id_str k) = k"
  by (rule memory_id_str.elims [of i], simp_all, rule episode_id_str.elims [of j], simp_all,
      rule chunk_id_str.elims [of k], simp_all)

text \<open>\<open>derive(PartialOrd, Ord)\<close> on a newtype over \<open>String\<close>: the order of the strings.\<close>

instantiation memory_id :: linorder
begin

definition less_eq_memory_id :: "memory_id \<Rightarrow> memory_id \<Rightarrow> bool" where
  "a \<le> b \<longleftrightarrow> memory_id_str a \<le> memory_id_str b"

definition less_memory_id :: "memory_id \<Rightarrow> memory_id \<Rightarrow> bool" where
  "a < b \<longleftrightarrow> memory_id_str a < memory_id_str b"

instance
proof
  fix a b :: memory_id
  show "a \<le> b \<Longrightarrow> b \<le> a \<Longrightarrow> a = b"
    by (cases a, cases b) (simp add: less_eq_memory_id_def)
qed (auto simp: less_eq_memory_id_def less_memory_id_def)

end

section \<open>Enums and their row spellings\<close>

datatype kind = Fact | Lesson | Instruction | Summary

datatype doc_kind = Plan | Review | Report | Probe | Transcript | Other

datatype decay_class = Pinned | Slow | Normal | Fast

datatype invalid_reason = Superseded | Forgotten | Expired

definition default_decay :: decay_class where
  "default_decay = Normal"

fun default_decay_class :: "kind \<Rightarrow> decay_class" where
  "default_decay_class Fact = Normal"
| "default_decay_class Lesson = Slow"
| "default_decay_class Summary = Slow"
| "default_decay_class Instruction = Pinned"

fun kind_as_str :: "kind \<Rightarrow> str" where
  "kind_as_str Fact = lit ''fact''"
| "kind_as_str Lesson = lit ''lesson''"
| "kind_as_str Instruction = lit ''instruction''"
| "kind_as_str Summary = lit ''summary''"

definition kind_from_str :: "str \<Rightarrow> core_error + kind" where
  "kind_from_str s =
     (if s = lit ''fact'' then Inr Fact
      else if s = lit ''lesson'' then Inr Lesson
      else if s = lit ''instruction'' then Inr Instruction
      else if s = lit ''summary'' then Inr Summary
      else Inl (UnknownVariant (lit ''kind'') s))"

definition doc_kind_all :: "doc_kind list" where
  "doc_kind_all = [Plan, Review, Report, Probe, Transcript, Other]"

fun doc_kind_as_str :: "doc_kind \<Rightarrow> str" where
  "doc_kind_as_str Plan = lit ''plan''"
| "doc_kind_as_str Review = lit ''review''"
| "doc_kind_as_str Report = lit ''report''"
| "doc_kind_as_str Probe = lit ''probe''"
| "doc_kind_as_str Transcript = lit ''transcript''"
| "doc_kind_as_str Other = lit ''other''"

definition doc_kind_from_str :: "str \<Rightarrow> core_error + doc_kind" where
  "doc_kind_from_str s =
     (case find (\<lambda>k. doc_kind_as_str k = s) doc_kind_all of
        Some k \<Rightarrow> Inr k
      | None \<Rightarrow> Inl (UnknownVariant (lit ''doc_kind'') s))"

fun decay_class_as_str :: "decay_class \<Rightarrow> str" where
  "decay_class_as_str Pinned = lit ''pinned''"
| "decay_class_as_str Slow = lit ''slow''"
| "decay_class_as_str Normal = lit ''normal''"
| "decay_class_as_str Fast = lit ''fast''"

definition decay_class_from_str :: "str \<Rightarrow> core_error + decay_class" where
  "decay_class_from_str s =
     (if s = lit ''pinned'' then Inr Pinned
      else if s = lit ''slow'' then Inr Slow
      else if s = lit ''normal'' then Inr Normal
      else if s = lit ''fast'' then Inr Fast
      else Inl (UnknownVariant (lit ''decay class'') s))"

fun invalid_reason_as_str :: "invalid_reason \<Rightarrow> str" where
  "invalid_reason_as_str Superseded = lit ''superseded''"
| "invalid_reason_as_str Forgotten = lit ''forgotten''"
| "invalid_reason_as_str Expired = lit ''expired''"

definition invalid_reason_from_str :: "str \<Rightarrow> core_error + invalid_reason" where
  "invalid_reason_from_str s =
     (if s = lit ''superseded'' then Inr Superseded
      else if s = lit ''forgotten'' then Inr Forgotten
      else if s = lit ''expired'' then Inr Expired
      else Inl (UnknownVariant (lit ''invalid reason'') s))"

section \<open>Provenance\<close>

datatype source = SrcEpisode episode_id | Agent | External str

datatype derivation = DMemory memory_id | DEpisode episode_id

fun derivation_display :: "derivation \<Rightarrow> str" where
  "derivation_display (DMemory i) = lit ''memory:'' @ memory_id_str i"
| "derivation_display (DEpisode i) = lit ''episode:'' @ episode_id_str i"

text \<open>\<open>str::split_once\<close> at the first occurrence of a character.\<close>

fun split_once :: "uchar \<Rightarrow> str \<Rightarrow> (str \<times> str) option" where
  "split_once d [] = None"
| "split_once d (c # s) =
     (if c = d then Some ([], s)
      else map_option (\<lambda>(a, b). (c # a, b)) (split_once d s))"

definition derivation_from_str :: "str \<Rightarrow> core_error + derivation" where
  "derivation_from_str s =
     (case split_once 58 s of
        Some (table, i) \<Rightarrow>
          if table = lit ''memory'' then map_ok DMemory (memory_id_new i)
          else if table = lit ''episode'' then map_ok DEpisode (episode_id_new i)
          else Inl (UnknownVariant (lit ''derivation'') s)
      | None \<Rightarrow> Inl (UnknownVariant (lit ''derivation'') s))"

fun derivation_ok :: "derivation \<Rightarrow> bool" where
  "derivation_ok (DMemory i) = is_ulid (memory_id_str i)"
| "derivation_ok (DEpisode i) = is_ulid (episode_id_str i)"

section \<open>Records\<close>

record writer =
  client :: str
  client_version :: "str option"
  session :: str
  tool :: str

definition default_writer :: writer where
  "default_writer = \<lparr>client = [], client_version = None, session = [], tool = []\<rparr>"

record memory_record =
  mr_id :: memory_id
  mr_space :: space_name
  mr_kind :: kind
  mr_content :: str
  mr_content_hash :: str
  mr_entities :: "str list"
  mr_tags :: "str list"
  mr_embedding :: "flt list option"
  mr_decay_class :: decay_class
  mr_strength :: real
  mr_last_accessed :: timestamp
  mr_access_count :: nat
  mr_valid_from :: timestamp
  mr_invalid_at :: "timestamp option"
  mr_invalid_reason :: "invalid_reason option"
  mr_supersedes :: "memory_id list"
  mr_superseded_by :: "memory_id option"
  mr_source :: source
  mr_writer :: "writer option"
  mr_novelty :: "real option"
  mr_derived_from :: "derivation list"
  mr_created_at :: timestamp

definition is_live :: "memory_record \<Rightarrow> bool" where
  "is_live m \<longleftrightarrow> mr_invalid_at m = None"

record episode =
  ep_id :: episode_id
  ep_space :: space_name
  ep_content :: str
  ep_content_hash :: str
  ep_occurred_at :: timestamp
  ep_session :: "str option"
  ep_created_at :: timestamp
  ep_title :: "str option"
  ep_doc_kind :: "doc_kind option"
  ep_tags :: "str list"
  ep_mime :: "str option"

definition is_document :: "episode \<Rightarrow> bool" where
  "is_document e \<longleftrightarrow> ep_doc_kind e \<noteq> None"

record episode_chunk =
  ec_id :: chunk_id
  ec_episode :: episode_id
  ec_space :: space_name
  ec_text :: str
  ec_position :: nat
  ec_occurred_at :: "timestamp option"
  ec_embedding :: "flt list option"

section \<open>Validation\<close>

lemma space_char_ascii: "space_char c \<Longrightarrow> c < 128"
  by (auto simp: space_char_def is_ascii_lowercase_def is_ascii_digit_def)

lemma ulid_char_ascii: "is_ascii_digit c \<or> is_ascii_uppercase c \<Longrightarrow> c < 128 \<and> c \<noteq> 58"
  by (auto simp: is_ascii_digit_def is_ascii_uppercase_def)

lemma is_ulid_length: "is_ulid s \<Longrightarrow> length s = 26"
  using byte_len_ascii [of s] ulid_char_ascii
  by (auto simp: is_ulid_def ulid_len_def list_all_iff)

lemma record_id_new_Inr [simp]: "record_id_new mk s = Inr i \<longleftrightarrow> is_ulid s \<and> i = mk s"
  by (auto simp: record_id_new_def)

lemma memory_id_new_Inr [simp]: "memory_id_new s = Inr i \<longleftrightarrow> is_ulid s \<and> i = MemoryId s"
  by (simp add: memory_id_new_def)

lemma episode_id_new_Inr [simp]: "episode_id_new s = Inr i \<longleftrightarrow> is_ulid s \<and> i = EpisodeId s"
  by (simp add: episode_id_new_def)

lemma chunk_id_new_Inr [simp]: "chunk_id_new s = Inr i \<longleftrightarrow> is_ulid s \<and> i = ChunkId s"
  by (simp add: chunk_id_new_def)

text \<open>The length test counts bytes; on the names it accepts, bytes and characters agree.\<close>

lemma space_name_new_Inr:
  "space_name_new s = Inr n \<longleftrightarrow>
     n = SpaceName s \<and> 1 \<le> length s \<and> length s \<le> 64 \<and> list_all space_char s"
proof -
  have "list_all space_char s \<Longrightarrow> byte_len s = length s"
    using byte_len_ascii [of s] space_char_ascii by (auto simp: list_all_iff)
  then show ?thesis
    by (cases s) (auto simp: space_name_new_def space_max_len_def)
qed

section \<open>Round trips of the spellings\<close>

lemma split_once_append: "d \<notin> set a \<Longrightarrow> split_once d (a @ d # b) = Some (a, b)"
  by (induction a) auto

lemma split_once_Some: "split_once d s = Some (a, b) \<Longrightarrow> s = a @ d # b \<and> d \<notin> set a"
proof (induction s arbitrary: a)
  case (Cons c s)
  show ?case
  proof (cases "c = d")
    case False
    with Cons.prems obtain a' where "split_once d s = Some (a', b)" "a = c # a'" by auto
    with Cons.IH [of a'] False show ?thesis by auto
  qed (use Cons.prems in simp)
qed simp

text \<open>What every one of the five spelled types promises its readers and writers.\<close>

locale spelling =
  fixes render :: "'k \<Rightarrow> str"
    and parse :: "str \<Rightarrow> core_error + 'k"
    and valid :: "'k \<Rightarrow> bool"
  assumes parse_iff: "parse s = Inr k \<longleftrightarrow> valid k \<and> s = render k"
begin

lemma parse_render: "valid k \<Longrightarrow> parse (render k) = Inr k"
  by (simp add: parse_iff)

lemma render_inj: "valid k \<Longrightarrow> valid l \<Longrightarrow> render k = render l \<Longrightarrow> k = l"
  by (metis parse_render sum.inject(2))

lemma parse_rejects: "\<forall>k. valid k \<longrightarrow> s \<noteq> render k \<Longrightarrow> \<exists>e. parse s = Inl e"
  by (cases "parse s") (blast dest: parse_iff [THEN iffD1])+

end

lemma kind_parse_iff: "kind_from_str s = Inr k \<longleftrightarrow> s = kind_as_str k"
  by (cases k) (auto simp: kind_from_str_def lit_inject)

lemma decay_class_parse_iff: "decay_class_from_str s = Inr k \<longleftrightarrow> s = decay_class_as_str k"
  by (cases k) (auto simp: decay_class_from_str_def lit_inject)

lemma invalid_reason_parse_iff: "invalid_reason_from_str s = Inr k \<longleftrightarrow> s = invalid_reason_as_str k"
  by (cases k) (auto simp: invalid_reason_from_str_def lit_inject)

lemma doc_kind_parse_iff: "doc_kind_from_str s = Inr k \<longleftrightarrow> s = doc_kind_as_str k"
  by (cases k) (auto simp: doc_kind_from_str_def doc_kind_all_def lit_inject)

lemma lit_append: "lit (s @ t) = lit s @ lit t"
  by (simp add: lit_def)

lemma derivation_display_split:
  "derivation_display (DMemory i) = lit ''memory'' @ 58 # memory_id_str i"
  "derivation_display (DEpisode j) = lit ''episode'' @ 58 # episode_id_str j"
  by (simp_all add: lit_def)

lemma derivation_parse_iff:
  "derivation_from_str s = Inr d \<longleftrightarrow> derivation_ok d \<and> s = derivation_display d"
proof
  assume parsed: "derivation_from_str s = Inr d"
  then obtain a b where ab: "split_once 58 s = Some (a, b)"
    by (auto simp: derivation_from_str_def split: option.splits)
  with split_once_Some [OF ab] parsed show "derivation_ok d \<and> s = derivation_display d"
    by (auto simp: derivation_from_str_def derivation_display_split
        simp del: derivation_display.simps split: if_splits)
next
  assume "derivation_ok d \<and> s = derivation_display d"
  moreover have "58 \<notin> set (lit ''memory'')" "58 \<notin> set (lit ''episode'')"
    by (simp_all add: lit_def)
  ultimately show "derivation_from_str s = Inr d"
    by (cases d)
      (simp_all add: derivation_from_str_def derivation_display_split split_once_append lit_inject
        del: derivation_display.simps)
qed

interpretation kind: spelling kind_as_str kind_from_str "\<lambda>_. True"
  by unfold_locales (simp add: kind_parse_iff)

interpretation decay_class: spelling decay_class_as_str decay_class_from_str "\<lambda>_. True"
  by unfold_locales (simp add: decay_class_parse_iff)

interpretation invalid_reason: spelling invalid_reason_as_str invalid_reason_from_str "\<lambda>_. True"
  by unfold_locales (simp add: invalid_reason_parse_iff)

interpretation doc_kind: spelling doc_kind_as_str doc_kind_from_str "\<lambda>_. True"
  by unfold_locales (simp add: doc_kind_parse_iff)

interpretation derivation: spelling derivation_display derivation_from_str derivation_ok
  by unfold_locales (rule derivation_parse_iff)

interpretation space: spelling space_as_str space_from_str space_ok
proof
  fix s k
  show "(space_from_str s = Inr k) = (space_ok k \<and> s = space_as_str k)"
    by (cases k) (auto simp: space_from_str_def space_ok_def space_name_new_Inr)
qed

section \<open>Properties\<close>

text \<open>C23: A reference of \<open>derived_from\<close> parses exactly when it is the display form of a link with
  a well-formed id, and then it parses to that link: nothing else is accepted, and rendering and
  parsing are inverse.\<close>

theorem derivation_text:
  "derivation_from_str s = Inr d \<longleftrightarrow> derivation_ok d \<and> s = derivation_display d"
  by (rule derivation.parse_iff)

text \<open>C31: A space name is accepted exactly when it is one to 64 characters of a-z, 0-9, dash and
  underscore, and it is kept as it is written; every other text is refused with the text in the
  error.\<close>

theorem space_name_accepts:
  "space_name_new s =
     (if s \<in> {t. 1 \<le> length t \<and> length t \<le> 64 \<and>
          set t \<subseteq> {97..122} \<union> {48..57} \<union> {45, 95}}
      then Inr (SpaceName s) else Inl (InvalidSpaceName s))"
proof -
  have char: "space_char c \<longleftrightarrow> c \<in> {97..122} \<union> {48..57} \<union> {45, 95}" for c
    by (auto simp: space_char_def is_ascii_lowercase_def is_ascii_digit_def)
  have "space_char c \<Longrightarrow> len_utf8 c = 1" for c
    by (auto simp: space_char_def is_ascii_lowercase_def is_ascii_digit_def len_utf8_def)
  then have len: "byte_len s = length s" if "list_all space_char s"
    using that by (induction s) (simp_all add: byte_len_def)
  have all: "list_all space_char s \<longleftrightarrow> set s \<subseteq> {97..122} \<union> {48..57} \<union> {45, 95}"
    unfolding list_all_iff subset_eq using char by blast
  have "(s \<noteq> [] \<and> byte_len s \<le> space_max_len \<and> list_all space_char s) \<longleftrightarrow>
      (1 \<le> length s \<and> length s \<le> 64 \<and> list_all space_char s)"
    using len by (cases "list_all space_char s"; cases "s = []")
      (simp_all add: space_max_len_def Suc_le_eq)
  then show ?thesis unfolding space_name_new_def mem_Collect_eq all by simp
qed

text \<open>C32: Every enum a row spells has one spelling per value: reading a text gives a value exactly
  when the text is that value's spelling.\<close>

theorem enum_spellings:
  "(kind_from_str s = Inr k \<longleftrightarrow> s = kind_as_str k) \<and>
   (decay_class_from_str s = Inr d \<longleftrightarrow> s = decay_class_as_str d) \<and>
   (invalid_reason_from_str s = Inr r \<longleftrightarrow> s = invalid_reason_as_str r) \<and>
   (doc_kind_from_str s = Inr dk \<longleftrightarrow> s = doc_kind_as_str dk)"
  by (simp add: kind.parse_iff decay_class.parse_iff invalid_reason.parse_iff doc_kind.parse_iff)

end
