(* ===== verification/Dedup.thy ===== *)
theory Dedup
  imports Model
begin

text \<open>
  The duplicate gates and the cosine bands, \<open>crates/agmem-core/src/dedup.rs\<close>.

  Parameters: \<open>lower\<close> is \<open>str::to_lowercase\<close> (the Unicode case tables are data this model does not
  carry) and \<open>blake3\<close> the hex digest of the hash crate. What the program relies on from \<open>lower\<close>
  is stated by \<open>lowercase_ok\<close>. Finite floating-point arithmetic is exact real arithmetic here;
  infinities and NaN are kept, because \<open>Unit::new\<close> tests for them.
\<close>

section \<open>Normal form and hash\<close>

definition normalize :: "(str \<Rightarrow> str) \<Rightarrow> str \<Rightarrow> str" where
  "normalize lower content = lower (unwords (split_whitespace content))"

definition content_hash :: "(str \<Rightarrow> str) \<Rightarrow> (str \<Rightarrow> str) \<Rightarrow> str \<Rightarrow> str" where
  "content_hash lower blake3 content = blake3 (normalize lower content)"

definition is_word :: "str \<Rightarrow> bool" where
  "is_word w \<longleftrightarrow> w \<noteq> [] \<and> list_all (\<lambda>c. \<not> is_whitespace c) w"

text \<open>
  Case folding works word by word (a space is neither cased nor case-ignorable), keeps a word a
  word, and changes nothing the second time.
\<close>

definition lowercase_ok :: "(str \<Rightarrow> str) \<Rightarrow> bool" where
  "lowercase_ok lower \<longleftrightarrow>
     (\<forall>ws. list_all is_word ws \<longrightarrow> lower (unwords ws) = unwords (map lower ws)) \<and>
     (\<forall>w. is_word w \<longrightarrow> is_word (lower w)) \<and>
     (\<forall>s. lower (lower s) = lower s)"

section \<open>Similarity and the bands\<close>

definition similarity_from_distance :: "real \<Rightarrow> real" where
  "similarity_from_distance distance = 1 - distance"

definition clamp :: "real \<Rightarrow> real \<Rightarrow> real \<Rightarrow> real" where
  "clamp lo hi x = (if x < lo then lo else if hi < x then hi else x)"

definition novelty :: "real \<Rightarrow> real" where
  "novelty best_similarity = clamp 0 1 (1 - best_similarity)"

record thresholds =
  near_dup :: real
  correction_floor :: real
  cluster :: real
  abstention :: real

definition bge_small :: thresholds where
  "bge_small = \<lparr>near_dup = 0.95, correction_floor = 0.75, cluster = 0.90, abstention = 0.62\<rparr>"

definition gemma_300m :: thresholds where
  "gemma_300m = \<lparr>near_dup = 0.95, correction_floor = 0.70, cluster = 0.90, abstention = 0.14\<rparr>"

definition is_near_duplicate :: "thresholds \<Rightarrow> real \<Rightarrow> bool" where
  "is_near_duplicate t s \<longleftrightarrow> near_dup t \<le> s"

definition is_correction_candidate :: "thresholds \<Rightarrow> real \<Rightarrow> bool" where
  "is_correction_candidate t s \<longleftrightarrow> correction_floor t \<le> s \<and> s < near_dup t"

definition is_cluster_candidate :: "thresholds \<Rightarrow> real \<Rightarrow> bool" where
  "is_cluster_candidate t s \<longleftrightarrow> cluster t \<le> s"

definition is_contradiction_candidate :: "thresholds \<Rightarrow> real \<Rightarrow> bool" where
  "is_contradiction_candidate t s \<longleftrightarrow> correction_floor t \<le> s"

section \<open>Unit vectors\<close>

fun fl_mul :: "flt \<Rightarrow> flt \<Rightarrow> flt" where
  "fl_mul (Fin a) (Fin b) = Fin (a * b)"
| "fl_mul NaN _ = NaN"
| "fl_mul _ NaN = NaN"
| "fl_mul PInf (Fin b) = (if b = 0 then NaN else if 0 < b then PInf else NInf)"
| "fl_mul NInf (Fin b) = (if b = 0 then NaN else if 0 < b then NInf else PInf)"
| "fl_mul (Fin a) PInf = (if a = 0 then NaN else if 0 < a then PInf else NInf)"
| "fl_mul (Fin a) NInf = (if a = 0 then NaN else if 0 < a then NInf else PInf)"
| "fl_mul PInf PInf = PInf"
| "fl_mul NInf NInf = PInf"
| "fl_mul PInf NInf = NInf"
| "fl_mul NInf PInf = NInf"

fun fl_add :: "flt \<Rightarrow> flt \<Rightarrow> flt" where
  "fl_add (Fin a) (Fin b) = Fin (a + b)"
| "fl_add NaN _ = NaN"
| "fl_add _ NaN = NaN"
| "fl_add PInf NInf = NaN"
| "fl_add NInf PInf = NaN"
| "fl_add PInf _ = PInf"
| "fl_add _ PInf = PInf"
| "fl_add NInf _ = NInf"
| "fl_add _ NInf = NInf"

fun fl_sqrt :: "flt \<Rightarrow> flt" where
  "fl_sqrt (Fin a) = (if a < 0 then NaN else Fin (sqrt a))"
| "fl_sqrt PInf = PInf"
| "fl_sqrt NInf = NaN"
| "fl_sqrt NaN = NaN"

fun fl_div_fin :: "flt \<Rightarrow> real \<Rightarrow> flt" where
  "fl_div_fin (Fin a) n = Fin (a / n)"
| "fl_div_fin PInf n = (if 0 < n then PInf else NInf)"
| "fl_div_fin NInf n = (if 0 < n then NInf else PInf)"
| "fl_div_fin NaN n = NaN"

definition fl_sum :: "flt list \<Rightarrow> flt" where
  "fl_sum xs = foldl fl_add (Fin 0) xs"

datatype unit_vec = Unit "flt list"

definition unit_norm :: "flt list \<Rightarrow> flt" where
  "unit_norm vector = fl_sqrt (fl_sum (map (\<lambda>v. fl_mul v v) vector))"

definition unit_new :: "flt list \<Rightarrow> unit_vec option" where
  "unit_new vector =
     (case unit_norm vector of
        Fin n \<Rightarrow>
          if n = 0 then None else Some (Unit (map (\<lambda>v. fl_div_fin v n) vector))
      | _ \<Rightarrow> None)"

fun unit_similarity :: "unit_vec \<Rightarrow> unit_vec \<Rightarrow> flt" where
  "unit_similarity (Unit a) (Unit b) =
     (if length a \<noteq> length b then Fin 0
      else fl_sum (map (\<lambda>(l, r). fl_mul l r) (zip a b)))"

section \<open>Normal form\<close>

lemma tokens_words: "list_all is_word (split_whitespace s)"
  using tokens_sound [of _ is_whitespace s] by (auto simp: list_all_iff is_word_def)

lemma split_unwords_words: "list_all is_word ws \<Longrightarrow> split_whitespace (unwords ws) = ws"
  by (simp add: tokens_unwords concat_map_tokens_words list_all_iff is_word_def)

lemma normalize_words:
  assumes "lowercase_ok lower"
  shows "split_whitespace (normalize lower s) = map lower (split_whitespace s)"
proof -
  have "list_all is_word (map lower (split_whitespace s))"
    using assms tokens_words [of s] by (auto simp: lowercase_ok_def list_all_iff)
  moreover have "normalize lower s = unwords (map lower (split_whitespace s))"
    using assms tokens_words [of s] by (simp add: normalize_def lowercase_ok_def)
  ultimately show ?thesis by (simp add: split_unwords_words)
qed

lemma normalize_fixpoint:
  assumes "lowercase_ok lower"
  shows "normalize lower (normalize lower s) = normalize lower s"
proof -
  have "normalize lower (normalize lower s) = lower (unwords (map lower (split_whitespace s)))"
    using normalize_words [OF assms] by (simp add: normalize_def)
  also have "\<dots> = lower (lower (unwords (split_whitespace s)))"
    using assms tokens_words [of s] by (simp add: lowercase_ok_def)
  also have "\<dots> = normalize lower s"
    using assms by (simp add: lowercase_ok_def normalize_def)
  finally show ?thesis .
qed

text \<open>ASCII case folding, an instance of the parameter that meets what is asked of it.\<close>

definition ascii_lower :: "str \<Rightarrow> str" where
  "ascii_lower s = map (\<lambda>c. if is_ascii_uppercase c then c + 32 else c) s"

lemma ascii_lower_unwords: "ascii_lower (unwords ws) = unwords (map ascii_lower ws)"
  by (induction "[32::nat]" ws rule: join.induct)
    (auto simp: ascii_lower_def is_ascii_uppercase_def)

lemma ascii_upper_not_whitespace: "is_ascii_uppercase c \<Longrightarrow> \<not> is_whitespace (c + 32)"
  by (auto simp: is_whitespace_def is_ascii_uppercase_def)

lemma ascii_lower_ok: "lowercase_ok ascii_lower"
proof -
  have "is_word w \<Longrightarrow> is_word (ascii_lower w)" for w
    by (auto simp: is_word_def list_all_iff ascii_lower_def ascii_upper_not_whitespace)
  moreover have "ascii_lower (ascii_lower s) = ascii_lower s" for s
    by (auto simp: ascii_lower_def is_ascii_uppercase_def)
  ultimately show ?thesis by (simp add: lowercase_ok_def ascii_lower_unwords)
qed

section \<open>Vectors\<close>

definition is_fin :: "flt \<Rightarrow> bool" where
  "is_fin v \<longleftrightarrow> (\<exists>r. v = Fin r)"

lemma foldl_fl_add_fin: "foldl fl_add (Fin a) (map Fin rs) = Fin (a + sum_list rs)"
  by (induction rs arbitrary: a) (auto simp: add.assoc)

lemma fl_sum_fin: "fl_sum (map Fin rs) = Fin (sum_list rs)"
  by (simp add: fl_sum_def foldl_fl_add_fin)

lemma fl_add_not_fin: "\<not> is_fin a \<or> \<not> is_fin b \<Longrightarrow> \<not> is_fin (fl_add a b)"
  by (cases a; cases b) (auto simp: is_fin_def)

lemma foldl_fl_add_not_fin:
  "\<not> is_fin a \<or> (\<exists>v \<in> set vs. \<not> is_fin v) \<Longrightarrow> \<not> is_fin (foldl fl_add a vs)"
proof (induction vs arbitrary: a)
  case (Cons v vs)
  from Cons.prems have "\<not> is_fin (fl_add a v) \<or> (\<exists>v \<in> set vs. \<not> is_fin v)"
    using fl_add_not_fin by auto
  with Cons.IH [of "fl_add a v"] show ?case by simp
qed simp

lemma fl_mul_self_fin: "is_fin (fl_mul v v) = is_fin v"
  by (cases v) (auto simp: is_fin_def)

lemma all_fin_map: "list_all is_fin vs \<Longrightarrow> \<exists>rs. vs = map Fin rs"
proof (induction vs)
  case (Cons v vs)
  then obtain r rs where "v = Fin r" "vs = map Fin rs" by (auto simp: is_fin_def)
  then show ?case by (intro exI [of _ "r # rs"]) simp
qed simp

definition norm2 :: "real list \<Rightarrow> real" where
  "norm2 rs = sqrt (sum_list (map (\<lambda>r. r * r) rs))"

lemma sum_squares_nonneg: "0 \<le> sum_list (map (\<lambda>r. r * r) (rs :: real list))"
  by (induction rs) auto

lemma unit_norm_fin: "unit_norm (map Fin rs) = Fin (norm2 rs)"
proof -
  have "map (\<lambda>v. fl_mul v v) (map Fin rs) = map Fin (map (\<lambda>r. r * r) rs)" by simp
  then show ?thesis
    using sum_squares_nonneg [of rs]
    by (simp only: unit_norm_def fl_sum_fin) (simp add: norm2_def not_less)
qed

lemma fl_sqrt_not_fin: "\<not> is_fin v \<Longrightarrow> \<not> is_fin (fl_sqrt v)"
  by (cases v) (auto simp: is_fin_def)

lemma unit_norm_not_fin: "\<not> list_all is_fin vs \<Longrightarrow> \<not> is_fin (unit_norm vs)"
  unfolding unit_norm_def fl_sum_def
  by (intro fl_sqrt_not_fin foldl_fl_add_not_fin) (auto simp: list_all_iff fl_mul_self_fin)

lemma sum_squares_0:
  "sum_list (map (\<lambda>r. r * r) rs) = 0 \<longleftrightarrow> list_all (\<lambda>r. r = (0::real)) rs"
proof (induction rs)
  case (Cons r rs)
  with sum_squares_nonneg [of rs] zero_le_square [of r] show ?case
    by (auto simp: add_nonneg_eq_0_iff)
qed simp

lemma norm2_0: "norm2 rs = 0 \<longleftrightarrow> list_all (\<lambda>r. r = 0) rs"
  by (simp add: norm2_def sum_squares_0)

lemma unit_new_fin:
  "unit_new (map Fin rs) =
     (if list_all (\<lambda>r. r = 0) rs then None
      else Some (Unit (map Fin (map (\<lambda>r. r / norm2 rs) rs))))"
  by (simp add: unit_new_def unit_norm_fin norm2_0)

lemma unit_new_Some_cases:
  assumes "unit_new vs = Some u"
  obtains rs where "vs = map Fin rs" and "\<not> list_all (\<lambda>r. r = 0) rs"
    and "u = Unit (map Fin (map (\<lambda>r. r / norm2 rs) rs))"
proof -
  have "is_fin (unit_norm vs)"
    using assms by (auto simp: unit_new_def is_fin_def split: flt.splits)
  then obtain rs where rs: "vs = map Fin rs" using unit_norm_not_fin all_fin_map by blast
  with assms have "\<not> list_all (\<lambda>r. r = 0) rs" by (auto simp: unit_new_fin)
  with assms rs that show ?thesis by (simp add: unit_new_fin)
qed

lemma sum_list_unit_squares:
  assumes "\<not> list_all (\<lambda>r. r = 0) rs"
  shows "sum_list (map (\<lambda>r. r / norm2 rs * (r / norm2 rs)) rs) = 1"
proof -
  let ?s = "sum_list (map (\<lambda>r. r * r) rs)"
  have "norm2 rs * norm2 rs = ?s"
    using sum_squares_nonneg [of rs] by (simp add: norm2_def)
  moreover from this have "?s \<noteq> 0" using assms by (simp add: sum_squares_0)
  moreover have "sum_list (map (\<lambda>r. r / norm2 rs * (r / norm2 rs)) rs)
      = ?s / (norm2 rs * norm2 rs)"
    using sum_list_const_mult [of "1 / (norm2 rs * norm2 rs)" "\<lambda>r. r * r" rs]
    by simp
  ultimately show ?thesis by simp
qed

definition dot :: "real list \<Rightarrow> real list \<Rightarrow> real" where
  "dot a b = sum_list (map (\<lambda>(l, r). l * r) (zip a b))"

lemma unit_similarity_fin:
  "unit_similarity (Unit (map Fin a)) (Unit (map Fin b))
     = Fin (if length a = length b then dot a b else 0)"
proof -
  have "map (\<lambda>(l, r). fl_mul l r) (zip (map Fin a) (map Fin b))
      = map Fin (map (\<lambda>(l, r). l * r) (zip a b))"
    by (simp add: zip_map_map split_def)
  then show ?thesis by (simp add: fl_sum_fin dot_def del: map_map)
qed

lemma dot_self: "dot a a = sum_list (map (\<lambda>r. r * r) a)"
  by (simp add: dot_def zip_same_conv_map o_def)

lemma unit_new_length_1:
  assumes "unit_new vs = Some u"
  shows "\<exists>a. u = Unit (map Fin a) \<and> dot a a = 1"
  using assms
proof (rule unit_new_Some_cases)
  fix rs
  assume "\<not> list_all (\<lambda>r. r = 0) rs" "u = Unit (map Fin (map (\<lambda>r. r / norm2 rs) rs))"
  then show ?thesis
    using sum_list_unit_squares [of rs]
    by (intro exI [of _ "map (\<lambda>r. r / norm2 rs) rs"]) (simp add: dot_self o_def)
qed

text \<open>Cauchy and Schwarz for unit vectors: twice a product is at most the sum of the squares.\<close>

lemma dot_bound:
  assumes "length a = length b"
  shows "2 * \<bar>dot a b\<bar> \<le> dot a a + dot b b"
  using assms
proof (induction a b rule: list_induct2)
  case (Cons x xs y ys)
  have "2 * \<bar>x * y\<bar> \<le> x * x + y * y"
    using zero_le_square [of "\<bar>x\<bar> - \<bar>y\<bar>"] by (simp add: algebra_simps abs_mult)
  moreover have "\<bar>dot (x # xs) (y # ys)\<bar> \<le> \<bar>x * y\<bar> + \<bar>dot xs ys\<bar>"
    by (simp add: dot_def)
  ultimately show ?case using Cons.IH by (simp add: dot_def)
qed (simp add: dot_def)

section \<open>Properties\<close>

text \<open>C18: The normal form is idempotent, and two contents have the same one exactly when their
  words agree up to case: blanks and letter case are all that the first duplicate gate forgives.\<close>

theorem normalize_identity:
  assumes "lowercase_ok lower"
  shows "normalize lower (normalize lower s) = normalize lower s \<and>
    (normalize lower s = normalize lower t \<longleftrightarrow>
       map lower (split_whitespace s) = map lower (split_whitespace t))"
proof -
  have norm: "normalize lower s = unwords (map lower (split_whitespace s))" for s
    using assms tokens_words [of s] by (simp add: normalize_def lowercase_ok_def)
  have "normalize lower s = normalize lower t \<longleftrightarrow>
      map lower (split_whitespace s) = map lower (split_whitespace t)"
  proof
    assume "normalize lower s = normalize lower t"
    then show "map lower (split_whitespace s) = map lower (split_whitespace t)"
      using normalize_words [OF assms] by (metis (no_types))
  next
    assume "map lower (split_whitespace s) = map lower (split_whitespace t)"
    then show "normalize lower s = normalize lower t" by (simp only: norm)
  qed
  with normalize_fixpoint [OF assms] show ?thesis by blast
qed

text \<open>The two spellings of one claim, folded by ASCII case.\<close>

theorem normalize_identity_witness:
  "normalize ascii_lower (lit '' Uses  JJ'') = normalize ascii_lower (lit ''uses jj'')"
proof -
  have "map ascii_lower (split_whitespace (lit '' Uses  JJ''))
      = map ascii_lower (split_whitespace (lit ''uses jj''))"
    by (simp add: lit_def tokens_def is_whitespace_def ascii_lower_def
        is_ascii_uppercase_def)
  with normalize_identity [OF ascii_lower_ok] show ?thesis by blast
qed

text \<open>C20: \<open>Unit::new\<close> gives a vector exactly when every component is finite and one is not zero.\<close>

theorem unit_new_defined:
  "(\<exists>u. unit_new vs = Some u) \<longleftrightarrow> list_all is_fin vs \<and> list_ex (\<lambda>v. v \<noteq> Fin 0) vs"
proof
  assume "\<exists>u. unit_new vs = Some u"
  then obtain u where "unit_new vs = Some u" ..
  then obtain rs where "vs = map Fin rs" "\<not> list_all (\<lambda>r. r = 0) rs"
    by (rule unit_new_Some_cases)
  then show "list_all is_fin vs \<and> list_ex (\<lambda>v. v \<noteq> Fin 0) vs"
    by (auto simp: list_all_iff list_ex_iff is_fin_def)
next
  assume r: "list_all is_fin vs \<and> list_ex (\<lambda>v. v \<noteq> Fin 0) vs"
  then obtain rs where "vs = map Fin rs" using all_fin_map by blast
  with r show "\<exists>u. unit_new vs = Some u"
    by (auto simp: unit_new_fin list_all_iff list_ex_iff)
qed



end
