(* ===== verification/Scoring.thy ===== *)
theory Scoring
  imports Dedup "HOL-Library.Multiset"
begin

text \<open>
  The ranking arithmetic, \<open>crates/agmem-core/src/scoring.rs\<close>: Ebbinghaus retention and its inverse
  horizon, temporal fit, and the min-max normalised weighted rank. Elapsed time is a signed number
  of nanoseconds, divided into days as the source does.
\<close>

section \<open>Constants\<close>

definition weight_rrf :: real where "weight_rrf = 0.6"
definition weight_retention :: real where "weight_retention = 0.25"
definition weight_importance :: real where "weight_importance = 0.15"
definition weight_temporal :: real where "weight_temporal = 0.15"
definition temporal_tau_days :: real where "temporal_tau_days = 30"
definition weight_novelty :: real where "weight_novelty = 0"
definition min_stability :: real where "min_stability = 0.01"
definition max_stability :: real where "max_stability = 5"
definition prune_retention :: real where "prune_retention = 0.05"
definition seconds_per_day :: real where "seconds_per_day = 86400"

fun rate :: "decay_class \<Rightarrow> real" where
  "rate Pinned = 0"
| "rate Slow = 0.005"
| "rate Normal = 0.02"
| "rate Fast = 0.15"

fun importance_of :: "decay_class \<Rightarrow> real" where
  "importance_of Pinned = 1"
| "importance_of Slow = 0.75"
| "importance_of Normal = 0.5"
| "importance_of Fast = 0.25"

section \<open>Retention\<close>

definition as_secs :: "int \<Rightarrow> real" where
  "as_secs nanos = real_of_int nanos / 1000000000"

definition days_between :: "timestamp \<Rightarrow> timestamp \<Rightarrow> real" where
  "days_between earlier later = max (as_secs (later - earlier) / seconds_per_day) 0"

definition retention :: "decay_class \<Rightarrow> real \<Rightarrow> timestamp \<Rightarrow> timestamp \<Rightarrow> real" where
  "retention c strength last_accessed now =
     (if rate c = 0 then 1
      else let days = days_between last_accessed now;
               stability = clamp min_stability max_stability strength
           in exp (- days * rate c / stability))"

definition decay_horizon_secs :: "decay_class \<Rightarrow> real \<Rightarrow> real option" where
  "decay_horizon_secs c threshold =
     (if rate c = 0 \<or> threshold \<le> 0 \<or> 1 \<le> threshold then None
      else Some (- ln threshold / rate c * seconds_per_day))"

definition is_valid_at :: "memory_record \<Rightarrow> timestamp \<Rightarrow> bool" where
  "is_valid_at m instant \<longleftrightarrow>
     mr_valid_from m \<le> instant \<and>
     (case mr_invalid_at m of None \<Rightarrow> True | Some close_at \<Rightarrow> instant < close_at)"

section \<open>Temporal fit\<close>

record temporal_query =
  tq_since :: "timestamp option"
  tq_until :: "timestamp option"
  tq_changed_since :: "timestamp option"

record interval =
  iv_from :: timestamp
  iv_to :: "timestamp option"

definition decayed_gap :: "real \<Rightarrow> real" where
  "decayed_gap gap = exp (- gap / temporal_tau_days)"

definition window_gap :: "temporal_query \<Rightarrow> interval \<Rightarrow> real" where
  "window_gap q valid =
     max (case tq_until q of None \<Rightarrow> 0 | Some u \<Rightarrow> days_between u (iv_from valid))
         (case (tq_since q, iv_to valid) of
            (Some s, Some t) \<Rightarrow> days_between t s
          | _ \<Rightarrow> 0)"

definition temporal_fit :: "temporal_query \<Rightarrow> interval \<Rightarrow> timestamp \<Rightarrow> real" where
  "temporal_fit q valid changed =
     (let fit = 1;
          fit = (if tq_since q \<noteq> None \<or> tq_until q \<noteq> None
                 then min fit (decayed_gap (window_gap q valid)) else fit)
      in case tq_changed_since q of
           Some cutoff \<Rightarrow> min fit (decayed_gap (days_between changed cutoff))
         | None \<Rightarrow> fit)"

section \<open>Signals and rank\<close>

record signals =
  sg_rrf :: real
  sg_similarity :: "real option"
  sg_temporal :: "real option"
  sg_novelty :: "real option"
  sg_retention :: real
  sg_importance :: real

definition for_memory :: "real \<Rightarrow> memory_record \<Rightarrow> timestamp \<Rightarrow> signals" where
  "for_memory rrf m now =
     \<lparr>sg_rrf = rrf, sg_similarity = None, sg_temporal = None, sg_novelty = mr_novelty m,
      sg_retention = retention (mr_decay_class m) (mr_strength m) (mr_last_accessed m) now,
      sg_importance = importance_of (mr_decay_class m)\<rparr>"

definition for_episode_chunk :: "real \<Rightarrow> signals" where
  "for_episode_chunk rrf =
     \<lparr>sg_rrf = rrf, sg_similarity = None, sg_temporal = None, sg_novelty = None,
      sg_retention = 1, sg_importance = importance_of Normal\<rparr>"

definition with_similarity :: "real option \<Rightarrow> signals \<Rightarrow> signals" where
  "with_similarity v s = s\<lparr>sg_similarity := v\<rparr>"

definition with_temporal :: "real option \<Rightarrow> signals \<Rightarrow> signals" where
  "with_temporal v s = s\<lparr>sg_temporal := v\<rparr>"

record ranked =
  rk_signals :: signals
  rk_rrf_normalized :: real
  rk_score :: real

text \<open>
  The fold that opens \<open>rank\<close>: worst and best retrieval score, and the sum and count of the novelty
  measurements. The source starts it at plus and minus infinity; on a pool that is not empty that
  is the first candidate's own score, which is where this one starts.
\<close>

definition pool_step :: "real \<times> real \<times> real \<times> nat \<Rightarrow> signals \<Rightarrow> real \<times> real \<times> real \<times> nat" where
  "pool_step = (\<lambda>(lo, hi, acc, cnt) s.
     (min lo (sg_rrf s), max hi (sg_rrf s),
      acc + (case sg_novelty s of None \<Rightarrow> 0 | Some n \<Rightarrow> n),
      cnt + (if sg_novelty s \<noteq> None then 1 else 0)))"

definition pool_stats :: "signals list \<Rightarrow> real \<times> real \<times> real \<times> nat" where
  "pool_stats ss =
     foldl pool_step (case ss of [] \<Rightarrow> 0 | s # _ \<Rightarrow> sg_rrf s,
                      case ss of [] \<Rightarrow> 0 | s # _ \<Rightarrow> sg_rrf s, 0, 0) ss"

definition normalize_rrf :: "real \<Rightarrow> real \<Rightarrow> real \<Rightarrow> real" where
  "normalize_rrf worst best rrf =
     (if best \<le> 0 then 0
      else if best - worst > 0 then (rrf - worst) / (best - worst)
      else 1)"

definition score_of :: "real \<Rightarrow> real \<Rightarrow> signals \<Rightarrow> real" where
  "score_of rrf_normalized novelty_mean s =
     weight_rrf * rrf_normalized
     + weight_retention * sg_retention s
     + weight_importance * sg_importance s
     + weight_temporal * (case sg_temporal s of None \<Rightarrow> 0 | Some t \<Rightarrow> t)
     + weight_novelty * (case sg_novelty s of None \<Rightarrow> 0 | Some n \<Rightarrow> n - novelty_mean)"

definition rank_rows :: "('a \<times> signals) list \<Rightarrow> ('a \<times> ranked) list" where
  "rank_rows candidates =
     (let (worst, best, novelty_sum, novelty_count) = pool_stats (map snd candidates);
          novelty_mean = (if novelty_count > 0 then novelty_sum / real novelty_count else 0)
      in map (\<lambda>(item, s).
           let n = normalize_rrf worst best (sg_rrf s) in
           (item, \<lparr>rk_signals = s, rk_rrf_normalized = n,
                   rk_score = score_of n novelty_mean s\<rparr>)) candidates)"

text \<open>\<open>sort_by\<close> is stable; so is \<open>sort_key\<close>. Best first is the key negated.\<close>

definition rank :: "('a \<times> signals) list \<Rightarrow> ('a \<times> ranked) list" where
  "rank candidates = sort_key (\<lambda>(_, r). - rk_score r) (rank_rows candidates)"

section \<open>Clamping and decay\<close>

lemma clamp_bounds: "lo \<le> hi \<Longrightarrow> lo \<le> clamp lo hi x \<and> clamp lo hi x \<le> hi"
  by (auto simp: clamp_def)

lemma clamp_mono: "lo \<le> hi \<Longrightarrow> x \<le> y \<Longrightarrow> clamp lo hi x \<le> clamp lo hi y"
  by (auto simp: clamp_def)

lemma clamp_min_max: "lo \<le> hi \<Longrightarrow> clamp lo hi x = min (max x lo) hi"
  by (auto simp: clamp_def)

lemma stability_pos [simp]: "0 < clamp min_stability max_stability s"
  using clamp_bounds [of min_stability max_stability s]
  by (simp add: min_stability_def max_stability_def)

lemma rate_nonneg [simp]: "0 \<le> rate c"
  by (cases c) auto

lemma rate_pos: "rate c \<noteq> 0 \<Longrightarrow> 0 < rate c"
  by (cases c) simp_all

lemma days_between_nonneg [simp]: "0 \<le> days_between a b"
  by (simp add: days_between_def)

lemma days_between_future: "b \<le> a \<Longrightarrow> days_between a b = 0"
  by (simp add: days_between_def as_secs_def seconds_per_day_def divide_nonpos_pos max_absorb2)

lemma days_between_mono: "b \<le> c \<Longrightarrow> days_between a b \<le> days_between a c"
  unfolding days_between_def as_secs_def seconds_per_day_def
  by (intro max.mono divide_right_mono) simp_all

lemma importance_bounds: "0 < importance_of c \<and> importance_of c \<le> 1"
  by (cases c) auto

lemma retention_decaying:
  "rate c \<noteq> 0 \<Longrightarrow> retention c s la now
     = exp (- (days_between la now * rate c / clamp min_stability max_stability s))"
  by (simp add: retention_def Let_def)

lemma retention_bounds: "0 < retention c s la now \<and> retention c s la now \<le> 1"
  by (cases "rate c = 0") (auto simp: retention_def Let_def divide_nonneg_pos)

lemma retention_mono_strength:
  assumes "s \<le> t"
  shows "retention c s la now \<le> retention c t la now"
proof (cases "rate c = 0")
  case False
  have "clamp min_stability max_stability s \<le> clamp min_stability max_stability t"
    using assms by (intro clamp_mono) (simp_all add: min_stability_def max_stability_def)
  then have "days_between la now * rate c / clamp min_stability max_stability t
      \<le> days_between la now * rate c / clamp min_stability max_stability s"
    by (intro divide_left_mono mult_pos_pos mult_nonneg_nonneg) simp_all
  with False show ?thesis by (simp add: retention_decaying)
qed (simp add: retention_def)

lemma retention_antimono_time:
  assumes "t \<le> u"
  shows "retention c s la u \<le> retention c s la t"
proof (cases "rate c = 0")
  case False
  have "days_between la t * rate c / clamp min_stability max_stability s
      \<le> days_between la u * rate c / clamp min_stability max_stability s"
    using assms by (intro divide_right_mono mult_right_mono days_between_mono)
      (simp_all add: less_imp_le)
  with False show ?thesis by (simp add: retention_decaying)
qed (simp add: retention_def)

text \<open>The horizon is the inverse of the curve: past it, and only past it, retention is lower.\<close>

lemma retention_below_iff:
  assumes "decay_horizon_secs c threshold = Some h" and "la \<le> now"
  shows "retention c s la now < threshold \<longleftrightarrow>
     h * clamp min_stability max_stability s < as_secs (now - la)"
proof -
  let ?k = "clamp min_stability max_stability s"
  have c: "0 < rate c" and t: "0 < threshold" "threshold < 1"
    and h: "h = - ln threshold / rate c * seconds_per_day"
    using assms(1) rate_pos [of c] by (auto simp: decay_horizon_secs_def split: if_splits)
  have days: "days_between la now = as_secs (now - la) / seconds_per_day"
    using assms(2) by (simp add: days_between_def as_secs_def seconds_per_day_def max_absorb1)
  have "retention c s la now < threshold \<longleftrightarrow>
      - (days_between la now * rate c / ?k) < ln threshold"
    using c t exp_less_cancel_iff [of _ "ln threshold"] by (subst retention_decaying) simp_all
  also have "\<dots> \<longleftrightarrow> - ln threshold * ?k < days_between la now * rate c"
    by (simp add: field_simps) linarith
  also have "\<dots> \<longleftrightarrow> h * ?k < as_secs (now - la)"
    using c by (simp add: h days seconds_per_day_def field_simps)
  finally show ?thesis .
qed

section \<open>The fit of a window\<close>

lemma decayed_gap_bounds: "0 \<le> g \<Longrightarrow> 0 < decayed_gap g \<and> decayed_gap g \<le> 1"
  by (simp add: decayed_gap_def temporal_tau_days_def)

lemma decayed_gap_eq_1: "decayed_gap g = 1 \<longleftrightarrow> g = 0"
  by (simp add: decayed_gap_def temporal_tau_days_def)

lemma window_gap_nonneg [simp]: "0 \<le> window_gap q v"
  by (auto simp: window_gap_def max_def split: option.splits)

lemma days_between_0: "days_between a b = 0 \<longleftrightarrow> b \<le> a"
  by (auto simp: days_between_def as_secs_def seconds_per_day_def max_def divide_le_0_iff)

lemma window_gap_0:
  "window_gap q v = 0 \<longleftrightarrow>
     (\<forall>u. tq_until q = Some u \<longrightarrow> iv_from v \<le> u) \<and>
     (\<forall>s t. tq_since q = Some s \<longrightarrow> iv_to v = Some t \<longrightarrow> s \<le> t)"
proof -
  have zero: "max a b = 0 \<longleftrightarrow> a = 0 \<and> b = 0" if "0 \<le> a" "0 \<le> b" for a b :: real
    using that by (auto simp: max_def)
  show ?thesis
    unfolding window_gap_def
    by (subst zero) (auto simp: days_between_0 split: option.splits)
qed

lemma temporal_fit_bounds: "0 < temporal_fit q v c \<and> temporal_fit q v c \<le> 1"
  using decayed_gap_bounds [OF window_gap_nonneg [of q v]]
    decayed_gap_bounds [OF days_between_nonneg]
  by (auto simp: temporal_fit_def Let_def min_def split: option.splits)

section \<open>Rank\<close>

lemma pool_step_simps [simp]:
  "pool_step (lo, hi, acc, cnt) s =
     (min lo (sg_rrf s), max hi (sg_rrf s),
      acc + (case sg_novelty s of None \<Rightarrow> 0 | Some n \<Rightarrow> n),
      cnt + (if sg_novelty s \<noteq> None then 1 else 0))"
  by (simp add: pool_step_def)

lemma foldl_pool_step:
  "foldl pool_step (lo, hi, acc, cnt) ss =
     (foldl min lo (map sg_rrf ss), foldl max hi (map sg_rrf ss),
      acc + sum_list (map (\<lambda>s. case sg_novelty s of None \<Rightarrow> 0 | Some n \<Rightarrow> n) ss),
      cnt + length (filter (\<lambda>s. sg_novelty s \<noteq> None) ss))"
  by (induction ss arbitrary: lo hi acc cnt) auto

lemma foldl_min_le: "foldl min lo xs \<le> (lo::real) \<and> (\<forall>x \<in> set xs. foldl min lo xs \<le> x)"
proof (induction xs arbitrary: lo)
  case (Cons y ys)
  from Cons.IH [of "min lo y"] show ?case by auto
qed simp

lemma foldl_max_ge: "(hi::real) \<le> foldl max hi xs \<and> (\<forall>x \<in> set xs. x \<le> foldl max hi xs)"
proof (induction xs arbitrary: hi)
  case (Cons y ys)
  from Cons.IH [of "max hi y"] show ?case by auto
qed simp

lemma foldl_max_in: "foldl max (hi::real) xs \<in> insert hi (set xs)"
proof (induction xs arbitrary: hi)
  case (Cons y ys)
  from Cons.IH [of "max hi y"] show ?case by (auto simp: max_def split: if_splits)
qed simp

lemma pool_stats_bounds:
  assumes "pool_stats ss = (worst, best, nsum, ncount)" and "s \<in> set ss"
  shows "worst \<le> sg_rrf s \<and> sg_rrf s \<le> best"
  using assms foldl_min_le foldl_max_ge
  by (auto simp: pool_stats_def foldl_pool_step)

lemma normalize_rrf_bounds:
  "worst \<le> r \<Longrightarrow> r \<le> best \<Longrightarrow> 0 \<le> normalize_rrf worst best r \<and> normalize_rrf worst best r \<le> 1"
  by (auto simp: normalize_rrf_def divide_le_eq)

lemma map_fst_rank_rows: "map (\<lambda>(i, r). (i, rk_signals r)) (rank_rows cs) = cs"
  by (auto simp: rank_rows_def Let_def split_def intro!: map_idI)

lemma mset_rank: "mset (map (\<lambda>(i, r). (i, rk_signals r)) (rank cs)) = mset cs"
  using map_fst_rank_rows [of cs] by (simp add: rank_def) (metis mset_map)

lemma sorted_rank: "sorted_wrt (\<ge>) (map (rk_score \<circ> snd) (rank cs))"
proof -
  have "sorted (map (\<lambda>(_, r). - rk_score r) (rank cs))" by (simp add: rank_def)
  then show ?thesis by (simp add: sorted_map sorted_wrt_map split_def)
qed

lemma rank_stable:
  "filter (\<lambda>(_, r). rk_score r = k) (rank cs) = filter (\<lambda>(_, r). rk_score r = k) (rank_rows cs)"
proof -
  have "filter (\<lambda>x. (case x of (_, r) \<Rightarrow> - rk_score r) = - k) (rank cs)
      = filter (\<lambda>x. (case x of (_, r) \<Rightarrow> - rk_score r) = - k) (rank_rows cs)"
    unfolding rank_def by (rule sort_key_stable)
  then show ?thesis by (simp add: split_def)
qed

lemma rank_rows_normalized:
  assumes "(i, r) \<in> set (rank cs)"
  shows "0 \<le> rk_rrf_normalized r \<and> rk_rrf_normalized r \<le> 1"
proof -
  obtain w b ns nc where st: "pool_stats (map snd cs) = (w, b, ns, nc)"
    by (metis prod_cases4)
  from assms st obtain s where s: "(i, s) \<in> set cs"
    and n: "rk_rrf_normalized r = normalize_rrf w b (sg_rrf s)"
    by (auto simp: rank_def rank_rows_def Let_def)
  from s have "s \<in> set (map snd cs)" by force
  from pool_stats_bounds [OF st this] n show ?thesis by (simp add: normalize_rrf_bounds)
qed

section \<open>Properties\<close>



text \<open>C17: The horizon that \<open>prune\<close> and \<open>gc\<close> sweep by is the inverse of the retention curve: a memory's
  retention is below the threshold exactly when more time than the horizon times its (clamped)
  strength has passed since its last access.\<close>

theorem horizon_inverts_retention:
  assumes "decay_horizon_secs c threshold = Some h" and "la \<le> now"
  shows "retention c s la now < threshold \<longleftrightarrow>
    h * clamp min_stability max_stability s < as_secs (now - la)"
  using assms by (rule retention_below_iff)

text \<open>The class that is swept has a horizon.\<close>

theorem horizon_inverts_retention_witness:
  "\<exists>h. decay_horizon_secs Fast prune_retention = Some h \<and>
     (retention Fast 1 0 9 < prune_retention \<longleftrightarrow> h * clamp min_stability max_stability 1 < as_secs 9)"
proof -
  obtain h where h: "decay_horizon_secs Fast prune_retention = Some h"
    by (simp add: decay_horizon_secs_def prune_retention_def)
  from horizon_inverts_retention [OF h, of 0 9 1] h show ?thesis by simp
qed


text \<open>C13: Ranking returns the candidates it was given, each with its own signals, best score first,
  and candidates of equal score in the order they came.\<close>

theorem rank_orders:
  "mset (map (\<lambda>(i, r). (i, rk_signals r)) (rank cs)) = mset cs \<and>
   sorted_wrt (\<ge>) (map (rk_score \<circ> snd) (rank cs)) \<and>
   filter (\<lambda>(_, r). rk_score r = k) (rank cs) = filter (\<lambda>(_, r). rk_score r = k) (rank_rows cs)"
  using mset_rank sorted_rank rank_stable by blast

text \<open>C14: In every ranked pool the normalised retrieval score is in [0, 1], so a memory whose
  other signals are at their best never scores above the sum of the weights, and no candidate
  scores below zero.\<close>

theorem rank_score_bounds:
  assumes "(i, r) \<in> set (rank cs)"
    and "0 \<le> sg_retention (rk_signals r)" and "sg_retention (rk_signals r) \<le> 1"
    and "0 \<le> sg_importance (rk_signals r)" and "sg_importance (rk_signals r) \<le> 1"
    and "pred_option (\<lambda>t. 0 \<le> t \<and> t \<le> 1) (sg_temporal (rk_signals r))"
  shows "0 \<le> rk_rrf_normalized r \<and> rk_rrf_normalized r \<le> 1 \<and> 0 \<le> rk_score r \<and>
    rk_score r \<le> weight_rrf + weight_retention + weight_importance + weight_temporal"
proof -
  have n: "0 \<le> rk_rrf_normalized r" "rk_rrf_normalized r \<le> 1"
    using rank_rows_normalized [OF assms(1)] by auto
  obtain m where "rk_score r = score_of (rk_rrf_normalized r) m (rk_signals r)"
    using assms(1) by (auto simp: rank_def rank_rows_def Let_def split: prod.splits)
  moreover have "0 \<le> (case sg_temporal (rk_signals r) of None \<Rightarrow> 0 | Some t \<Rightarrow> t)"
    "(case sg_temporal (rk_signals r) of None \<Rightarrow> 0 | Some t \<Rightarrow> t) \<le> 1"
    using assms(6) by (auto split: option.splits)
  ultimately show ?thesis
    using n assms(2-5)
    by (simp add: score_of_def weight_novelty_def weight_rrf_def weight_retention_def
        weight_importance_def weight_temporal_def)
qed

text \<open>A pool of one episode chunk.\<close>

theorem rank_score_bounds_witness:
  "\<exists>r. (7 :: nat, r) \<in> set (rank [(7, for_episode_chunk 3)]) \<and> 0 \<le> rk_score r"
proof -
  obtain r where r: "(7 :: nat, r) \<in> set (rank [(7, for_episode_chunk 3)])"
    and s: "rk_signals r = for_episode_chunk 3"
    by (simp add: rank_def rank_rows_def Let_def pool_stats_def)
  from rank_score_bounds [OF r] s r show ?thesis
    by (auto simp: for_episode_chunk_def)
qed

end
