(* ===== verification/Rows.thy ===== *)
theory Rows
  imports Model Dedup
begin

text \<open>
  Row shapes and the conversions between rows and domain records,
  \<open>crates/agmem-store/src/types.rs\<close>, with the store's error type (\<open>error.rs\<close>).

  A table row carries strings where the domain has enums and validated names; reading one parses
  them and can fail. An engine datetime is an instant like a \<open>timestamp\<close>: a count of nanoseconds.
\<close>

section \<open>Errors\<close>

datatype db_error = DbError str

datatype store_error =
    Db db_error
  | UnknownMemory space_name memory_id
  | UnknownEpisode space_name episode_id
  | AlreadyClosedError memory_id str "memory_id option"
  | MalformedRow core_error
  | UnexpectedResponse str
  | SchemaTooNew nat nat
  | VectorCount nat nat
  | EmbedderMismatch str int "str option" str int "str option"

section \<open>Instants\<close>

text \<open>
  \<open>to_datetime\<close> takes a jiff timestamp apart with \<open>as_second\<close> and \<open>subsec_nanosecond\<close> and hands
  both to \<open>Datetime::from_timestamp\<close>; the fraction passes through \<open>u32\<close>, which a negative one
  does not fit. jiff's two accessors are parameters.
\<close>

definition u32_or_zero :: "int \<Rightarrow> int" where
  "u32_or_zero n = (if 0 \<le> n \<and> n < 2 ^ 32 then n else 0)"

definition to_datetime :: "(timestamp \<Rightarrow> int) \<Rightarrow> (timestamp \<Rightarrow> int) \<Rightarrow> timestamp \<Rightarrow> timestamp" where
  "to_datetime as_second subsec stamp =
     as_second stamp * 1000000000 + u32_or_zero (subsec stamp)"

text \<open>What jiff documents of them: the two parts add up and share the instant's sign.\<close>

definition jiff_parts :: "(timestamp \<Rightarrow> int) \<Rightarrow> (timestamp \<Rightarrow> int) \<Rightarrow> bool" where
  "jiff_parts as_second subsec \<longleftrightarrow>
     (\<forall>t. t = as_second t * 1000000000 + subsec t \<and> \<bar>subsec t\<bar> < 1000000000 \<and>
          (0 \<le> t \<longrightarrow> 0 \<le> subsec t) \<and> (t \<le> 0 \<longrightarrow> subsec t \<le> 0))"

section \<open>Table rows\<close>

datatype ref_value = RefRecord str str | RefString str

record source_row =
  sr_kind :: str
  sr_ref :: "ref_value option"

record writer_row =
  wr_client :: str
  wr_client_version :: "str option"
  wr_session :: str
  wr_tool :: str

record derivation_row =
  dr_table :: str
  dr_id :: str

text \<open>A row of the \<open>memory\<close> table: every column the migrations define.\<close>

record mem_row =
  m_id :: str
  m_space :: str
  m_kind :: str
  m_content :: str
  m_hash :: str
  m_entities :: "str list"
  m_tags :: "str list"
  m_embedding :: "flt list option"
  m_decay :: str
  m_strength :: real
  m_last_accessed :: timestamp
  m_access_count :: int
  m_valid_from :: timestamp
  m_invalid_at :: "timestamp option"
  m_invalid_reason :: "str option"
  m_supersedes :: "str list"
  m_superseded_by :: "str option"
  m_source :: source_row
  m_writer :: "writer_row option"
  m_novelty :: "real option"
  m_derived_from :: "derivation_row list"
  m_created_at :: timestamp

record ep_row =
  e_id :: str
  e_space :: str
  e_content :: str
  e_hash :: str
  e_occurred_at :: timestamp
  e_session :: "str option"
  e_created_at :: timestamp
  e_title :: "str option"
  e_doc_kind :: "str option"
  e_tags :: "str list option"
  e_mime :: "str option"
  e_writer :: "writer_row option"

record chunk_row =
  c_id :: str
  c_episode :: str
  c_space :: str
  c_text :: str
  c_position :: int
  c_occurred_at :: "timestamp option"
  c_embedding :: "flt list option"

definition memory_table :: str where "memory_table = lit ''memory''"
definition episode_table :: str where "episode_table = lit ''episode''"
definition episode_chunk_table :: str where "episode_chunk_table = lit ''episode_chunk''"

section \<open>Writing\<close>

definition writer_row_new :: "writer \<Rightarrow> writer_row" where
  "writer_row_new w =
     \<lparr>wr_client = client w, wr_client_version = client_version w,
      wr_session = session w, wr_tool = tool w\<rparr>"

definition into_writer :: "writer_row \<Rightarrow> writer" where
  "into_writer r =
     \<lparr>client = wr_client r, client_version = wr_client_version r,
      session = wr_session r, tool = wr_tool r\<rparr>"

fun source_row_new :: "source \<Rightarrow> source_row" where
  "source_row_new Agent = \<lparr>sr_kind = lit ''agent'', sr_ref = None\<rparr>"
| "source_row_new (SrcEpisode e) =
     \<lparr>sr_kind = lit ''episode'', sr_ref = Some (RefRecord episode_table (episode_id_str e))\<rparr>"
| "source_row_new (External origin) =
     \<lparr>sr_kind = lit ''external'', sr_ref = Some (RefString origin)\<rparr>"

fun derivation_ref :: "derivation \<Rightarrow> derivation_row" where
  "derivation_ref (DMemory i) = \<lparr>dr_table = memory_table, dr_id = memory_id_str i\<rparr>"
| "derivation_ref (DEpisode i) = \<lparr>dr_table = episode_table, dr_id = episode_id_str i\<rparr>"

section \<open>Reading\<close>

text \<open>The query flattens \<open>source\<close>: a link is unwrapped to its id, a string passes.\<close>

fun flatten_ref :: "ref_value \<Rightarrow> str" where
  "flatten_ref (RefRecord _ i) = i"
| "flatten_ref (RefString s) = s"

definition to_source :: "str \<Rightarrow> str option \<Rightarrow> store_error + source" where
  "to_source k reference =
     (if k = lit ''agent'' then Inr Agent
      else case reference of
          Some r \<Rightarrow>
            if k = lit ''episode'' then map_err MalformedRow (map_ok SrcEpisode (episode_id_new r))
            else if k = lit ''external'' then Inr (External r)
            else Inl (UnexpectedResponse (lit ''source''))
        | None \<Rightarrow> Inl (UnexpectedResponse (lit ''source'')))"

definition into_derivation :: "derivation_row \<Rightarrow> store_error + derivation" where
  "into_derivation r =
     (if dr_table r = memory_table then map_err MalformedRow (map_ok DMemory (memory_id_new (dr_id r)))
      else if dr_table r = episode_table
      then map_err MalformedRow (map_ok DEpisode (episode_id_new (dr_id r)))
      else Inl (UnexpectedResponse (lit ''derivation'')))"

definition u32_of_count :: "int \<Rightarrow> nat" where
  "u32_of_count n = (if 0 \<le> n \<and> n < 2 ^ 32 then nat n else 0)"

text \<open>
  \<open>MEMORY_FIELDS\<close> and \<open>MemoryReadRow::into_record\<close> together: what a read makes of a row, in the
  order the struct literal evaluates its fields. The vector is never projected.
\<close>

definition into_record :: "mem_row \<Rightarrow> store_error + memory_record" where
  "into_record r =
     and_then (map_err MalformedRow (memory_id_new (m_id r))) (\<lambda>i.
     and_then (map_err MalformedRow (space_name_new (m_space r))) (\<lambda>sp.
     and_then (map_err MalformedRow (kind_from_str (m_kind r))) (\<lambda>k.
     and_then (map_err MalformedRow (decay_class_from_str (m_decay r))) (\<lambda>d.
     and_then (map_err MalformedRow (transpose_result invalid_reason_from_str (m_invalid_reason r)))
       (\<lambda>reason.
     and_then (map_err MalformedRow (collect_results memory_id_new (m_supersedes r))) (\<lambda>sups.
     and_then (map_err MalformedRow (transpose_result memory_id_new (m_superseded_by r))) (\<lambda>by'.
     and_then (to_source (sr_kind (m_source r)) (map_option flatten_ref (sr_ref (m_source r))))
       (\<lambda>src.
     and_then (collect_results into_derivation (m_derived_from r)) (\<lambda>derived.
     Inr \<lparr>mr_id = i, mr_space = sp, mr_kind = k, mr_content = m_content r,
          mr_content_hash = m_hash r, mr_entities = m_entities r, mr_tags = m_tags r,
          mr_embedding = None, mr_decay_class = d, mr_strength = m_strength r,
          mr_last_accessed = m_last_accessed r,
          mr_access_count = u32_of_count (m_access_count r),
          mr_valid_from = m_valid_from r, mr_invalid_at = m_invalid_at r,
          mr_invalid_reason = reason, mr_supersedes = sups, mr_superseded_by = by',
          mr_source = src, mr_writer = map_option into_writer (m_writer r),
          mr_novelty = map_option (clamp 0 1) (m_novelty r),
          mr_derived_from = derived, mr_created_at = m_created_at r\<rparr>)))))))))"

definition into_chunk :: "chunk_row \<Rightarrow> store_error + episode_chunk" where
  "into_chunk r =
     and_then (map_err MalformedRow (chunk_id_new (c_id r))) (\<lambda>i.
     and_then (map_err MalformedRow (episode_id_new (c_episode r))) (\<lambda>e.
     and_then (map_err MalformedRow (space_name_new (c_space r))) (\<lambda>sp.
     Inr \<lparr>ec_id = i, ec_episode = e, ec_space = sp, ec_text = c_text r,
          ec_position = u32_of_count (c_position r), ec_occurred_at = c_occurred_at r,
          ec_embedding = None\<rparr>)))"

definition into_episode :: "ep_row \<Rightarrow> store_error + episode" where
  "into_episode r =
     and_then (map_err MalformedRow (episode_id_new (e_id r))) (\<lambda>i.
     and_then (map_err MalformedRow (space_name_new (e_space r))) (\<lambda>sp.
     and_then (map_err MalformedRow (transpose_result doc_kind_from_str (e_doc_kind r))) (\<lambda>dk.
     Inr \<lparr>ep_id = i, ep_space = sp, ep_content = e_content r, ep_content_hash = e_hash r,
          ep_occurred_at = e_occurred_at r, ep_session = e_session r,
          ep_created_at = e_created_at r, ep_title = e_title r, ep_doc_kind = dk,
          ep_tags = (case e_tags r of None \<Rightarrow> [] | Some ts \<Rightarrow> ts), ep_mime = e_mime r\<rparr>)))"

section \<open>The row a record spells\<close>

text \<open>
  The inverse direction, the row the write path produces for a record: used to state that reading
  what was written gives it back.
\<close>

definition record_row :: "memory_record \<Rightarrow> mem_row" where
  "record_row m =
     \<lparr>m_id = memory_id_str (mr_id m), m_space = space_as_str (mr_space m),
      m_kind = kind_as_str (mr_kind m), m_content = mr_content m, m_hash = mr_content_hash m,
      m_entities = mr_entities m, m_tags = mr_tags m, m_embedding = mr_embedding m,
      m_decay = decay_class_as_str (mr_decay_class m), m_strength = mr_strength m,
      m_last_accessed = mr_last_accessed m, m_access_count = int (mr_access_count m),
      m_valid_from = mr_valid_from m, m_invalid_at = mr_invalid_at m,
      m_invalid_reason = map_option invalid_reason_as_str (mr_invalid_reason m),
      m_supersedes = map memory_id_str (mr_supersedes m),
      m_superseded_by = map_option memory_id_str (mr_superseded_by m),
      m_source = source_row_new (mr_source m),
      m_writer = map_option writer_row_new (mr_writer m), m_novelty = mr_novelty m,
      m_derived_from = map derivation_ref (mr_derived_from m), m_created_at = mr_created_at m\<rparr>"

definition memory_id_ok :: "memory_id \<Rightarrow> bool" where
  "memory_id_ok i \<longleftrightarrow> is_ulid (memory_id_str i)"

fun source_ok :: "source \<Rightarrow> bool" where
  "source_ok (SrcEpisode e) = is_ulid (episode_id_str e)"
| "source_ok _ = True"

text \<open>Records built from validated parts, with a counter and a novelty in range.\<close>

definition record_ok :: "memory_record \<Rightarrow> bool" where
  "record_ok m \<longleftrightarrow>
     memory_id_ok (mr_id m) \<and> space_ok (mr_space m) \<and> list_all memory_id_ok (mr_supersedes m) \<and>
     pred_option memory_id_ok (mr_superseded_by m) \<and> source_ok (mr_source m) \<and>
     list_all derivation_ok (mr_derived_from m) \<and> mr_access_count m < 2 ^ 32 \<and>
     pred_option (\<lambda>n. 0 \<le> n \<and> n \<le> 1) (mr_novelty m) \<and> mr_embedding m = None"

lemma into_writer_new [simp]: "into_writer (writer_row_new w) = w"
  by (simp add: into_writer_def writer_row_new_def)

lemma to_source_row [simp]:
  "source_ok s \<Longrightarrow>
   to_source (sr_kind (source_row_new s)) (map_option flatten_ref (sr_ref (source_row_new s))) = Inr s"
  by (cases s) (simp_all add: to_source_def lit_inject)

lemma into_derivation_ref [simp]: "derivation_ok d \<Longrightarrow> into_derivation (derivation_ref d) = Inr d"
  by (cases d) (simp_all add: into_derivation_def memory_table_def episode_table_def lit_inject)

lemma collect_map_roundtrip:
  "list_all P xs \<Longrightarrow> (\<And>x. P x \<Longrightarrow> f (g x) = Inr x) \<Longrightarrow> collect_results f (map g xs) = Inr xs"
  by (induction xs) auto

lemma transpose_map_roundtrip:
  "pred_option P v \<Longrightarrow> (\<And>x. P x \<Longrightarrow> f (g x) = Inr x) \<Longrightarrow>
   transpose_result f (map_option g v) = Inr v"
  by (cases v) auto

lemma memory_id_roundtrip: "memory_id_ok i \<Longrightarrow> memory_id_new (memory_id_str i) = Inr i"
  by (simp add: memory_id_ok_def)

lemma space_roundtrip: "space_ok n \<Longrightarrow> space_name_new (space_as_str n) = Inr n"
  by (simp add: space_ok_def)

lemma map_option_clamp_id:
  "pred_option (\<lambda>n. 0 \<le> n \<and> n \<le> 1) v \<Longrightarrow> map_option (clamp 0 1) v = v"
  by (cases v) (auto simp: clamp_def)

lemma into_record_row:
  assumes "record_ok m"
  shows "into_record (record_row m) = Inr m"
proof -
  note ok = assms [unfolded record_ok_def]
  have ids: "memory_id_new (memory_id_str (mr_id m)) = Inr (mr_id m)"
    "space_name_new (space_as_str (mr_space m)) = Inr (mr_space m)"
    "collect_results memory_id_new (map memory_id_str (mr_supersedes m)) = Inr (mr_supersedes m)"
    "transpose_result memory_id_new (map_option memory_id_str (mr_superseded_by m))
       = Inr (mr_superseded_by m)"
    "collect_results into_derivation (map derivation_ref (mr_derived_from m))
       = Inr (mr_derived_from m)"
    using ok
    by (simp_all add: memory_id_roundtrip space_roundtrip
        collect_map_roundtrip [where P = memory_id_ok] collect_map_roundtrip [where P = derivation_ok]
        transpose_map_roundtrip [where P = memory_id_ok] del: memory_id_new_Inr)
  have enums: "kind_from_str (kind_as_str (mr_kind m)) = Inr (mr_kind m)"
    "decay_class_from_str (decay_class_as_str (mr_decay_class m)) = Inr (mr_decay_class m)"
    "transpose_result invalid_reason_from_str
        (map_option invalid_reason_as_str (mr_invalid_reason m)) = Inr (mr_invalid_reason m)"
    by (simp_all add: kind_parse_iff decay_class_parse_iff invalid_reason_parse_iff
        transpose_map_roundtrip [where P = "\<lambda>_. True"] option.pred_True)
  have rest: "map_option into_writer (map_option writer_row_new (mr_writer m)) = mr_writer m"
    "map_option (clamp 0 1) (mr_novelty m) = mr_novelty m"
    "u32_of_count (int (mr_access_count m)) = mr_access_count m"
    using ok by (simp_all add: option.map_comp o_def option.map_ident map_option_clamp_id
        u32_of_count_def)
  show ?thesis
    using ok by (simp add: into_record_def record_row_def ids enums rest
        del: memory_id_new_Inr)
qed

section \<open>Properties\<close>



text \<open>C22: An instant survives the trip into the engine exactly when it is not before 1970 or has no
  fraction of a second; before 1970 the fraction is dropped.\<close>

theorem to_datetime_exact:
  assumes "jiff_parts as_second subsec"
  shows "(to_datetime as_second subsec t = t \<longleftrightarrow> (0 \<le> t \<or> subsec t = 0)) \<and>
    t \<le> to_datetime as_second subsec t \<and> to_datetime as_second subsec t < t + 1000000000"
proof -
  have parts: "t = as_second t * 1000000000 + subsec t" "\<bar>subsec t\<bar> < 1000000000"
    "0 \<le> t \<longrightarrow> 0 \<le> subsec t" "t \<le> 0 \<longrightarrow> subsec t \<le> 0"
    using assms unfolding jiff_parts_def by blast+
  then show ?thesis by (auto simp: to_datetime_def u32_or_zero_def)
qed

text \<open>The two accessors as truncating division, a nanosecond before 1970.\<close>

theorem to_datetime_exact_witness:
  "to_datetime (\<lambda>t. sgn t * (\<bar>t\<bar> div 1000000000)) (\<lambda>t. sgn t * (\<bar>t\<bar> mod 1000000000)) (-1) \<noteq> -1"
proof -
  have "jiff_parts (\<lambda>t. sgn t * (\<bar>t\<bar> div 1000000000)) (\<lambda>t. sgn t * (\<bar>t\<bar> mod 1000000000))"
    unfolding jiff_parts_def
  proof (intro allI conjI impI)
    fix t :: int
    have "\<bar>t\<bar> = \<bar>t\<bar> div 1000000000 * 1000000000 + \<bar>t\<bar> mod 1000000000" by simp
    then have "sgn t * \<bar>t\<bar>
        = sgn t * (\<bar>t\<bar> div 1000000000) * 1000000000 + sgn t * (\<bar>t\<bar> mod 1000000000)"
      by (metis distrib_left mult.assoc)
    then show "t = sgn t * (\<bar>t\<bar> div 1000000000) * 1000000000 + sgn t * (\<bar>t\<bar> mod 1000000000)"
      by (simp add: sgn_mult_abs)
    show "\<bar>sgn t * (\<bar>t\<bar> mod 1000000000)\<bar> < 1000000000"
      by (simp add: abs_mult abs_sgn_eq)
    show "0 \<le> t \<Longrightarrow> 0 \<le> sgn t * (\<bar>t\<bar> mod 1000000000)" by (simp add: sgn_if)
    show "t \<le> 0 \<Longrightarrow> sgn t * (\<bar>t\<bar> mod 1000000000) \<le> 0"
      by (simp add: sgn_if)
  qed
  from to_datetime_exact [OF this, of "-1"] show ?thesis by simp
qed

end
