(* ===== verification/StoreDb.thy ===== *)
theory StoreDb
  imports Rows
begin

text \<open>
  The store's state and the engine statements the write path is made of: the guarded \<open>CREATE\<close>, an
  \<open>UPDATE\<close> over a list of record ids with a \<open>WHERE\<close>, and the unique index over
  \<open>(space, content_hash, dedup_key)\<close> that aborts the transaction either one would break
  (\<open>migrations/v1_schema.surql\<close>, \<open>v5_live_dedup.surql\<close>).

  What the engine supplies is in the record \<open>engine\<close>: the clock, the ULIDs it mints (the k-th id
  minted by this store is \<open>en_ulid k\<close>), the datetime conversion and the content hash.
\<close>

record engine =
  en_now :: timestamp
  en_ulid :: "nat \<Rightarrow> str"
  en_datetime :: "timestamp \<Rightarrow> timestamp"
  en_hash :: "str \<Rightarrow> str"

record store =
  st_memories :: "mem_row list"
  st_episodes :: "ep_row list"
  st_chunks :: "chunk_row list"
  st_spaces :: "str list"
  st_minted :: nat

definition empty_store :: store where
  "empty_store =
     \<lparr>st_memories = [], st_episodes = [], st_chunks = [], st_spaces = [], st_minted = 0\<rparr>"

text \<open>
  ULIDs are well-formed. That they do not repeat is not assumed: a \<open>CREATE\<close> of an id the table
  already has fails.
\<close>

definition engine_ok :: "engine \<Rightarrow> bool" where
  "engine_ok E \<longleftrightarrow> (\<forall>k. is_ulid (en_ulid E k))"

definition mint :: "engine \<Rightarrow> store \<Rightarrow> str \<times> store" where
  "mint E st = (en_ulid E (st_minted st), st\<lparr>st_minted := Suc (st_minted st)\<rparr>)"

section \<open>The memory table\<close>

definition live :: "mem_row \<Rightarrow> bool" where
  "live r \<longleftrightarrow> m_invalid_at r = None"

definition find_row :: "mem_row list \<Rightarrow> str \<Rightarrow> mem_row option" where
  "find_row rows i = find (\<lambda>r. m_id r = i) rows"

text \<open>
  The columns of index \<open>mem_hash_live\<close>: \<open>dedup_key\<close> is computed as \<open>invalid_at ?? 'live'\<close>.
\<close>

definition mem_key :: "mem_row \<Rightarrow> str \<times> str \<times> timestamp option" where
  "mem_key r = (m_space r, m_hash r, m_invalid_at r)"

definition index_error :: "str \<Rightarrow> db_error" where
  "index_error name = DbError (lit ''Database index '' @ name)"

definition mem_hash_live :: db_error where
  "mem_hash_live = index_error (lit ''mem_hash_live'')"

definition record_exists :: "str \<Rightarrow> str \<Rightarrow> db_error" where
  "record_exists table i =
     DbError (lit ''Database record '' @ table @ [58] @ i @ lit '' already exists'')"

definition create_row :: "mem_row \<Rightarrow> mem_row list \<Rightarrow> db_error + mem_row list" where
  "create_row r rows =
     (if list_ex (\<lambda>x. m_id x = m_id r) rows then Inl (record_exists memory_table (m_id r))
      else if list_ex (\<lambda>x. mem_key x = mem_key r) rows then Inl mem_hash_live
      else Inr (rows @ [r]))"

definition put_row :: "mem_row \<Rightarrow> mem_row list \<Rightarrow> db_error + mem_row list" where
  "put_row r rows =
     (if list_ex (\<lambda>x. m_id x \<noteq> m_id r \<and> mem_key x = mem_key r) rows then Inl mem_hash_live
      else Inr (map (\<lambda>x. if m_id x = m_id r then r else x) rows))"

text \<open>
  \<open>UPDATE $ids SET \<dots> WHERE \<dots>\<close>: one id after another, skipping the ids that name nothing and the
  rows the condition refuses; what comes back is the ids that changed.
\<close>

fun update_where ::
  "(mem_row \<Rightarrow> bool) \<Rightarrow> (mem_row \<Rightarrow> mem_row) \<Rightarrow> str list \<Rightarrow> mem_row list \<Rightarrow>
   db_error + (mem_row list \<times> str list)" where
  "update_where P f [] rows = Inr (rows, [])"
| "update_where P f (i # ids) rows =
     (case find_row rows i of
        None \<Rightarrow> update_where P f ids rows
      | Some r \<Rightarrow>
          if P r then
            and_then (put_row (f r) rows) (\<lambda>rows'.
            and_then (update_where P f ids rows') (\<lambda>(rows'', changed).
            Inr (rows'', i # changed)))
          else update_where P f ids rows)"

definition superseded_str :: str where
  "superseded_str = invalid_reason_as_str Superseded"

definition close_row :: "str \<Rightarrow> timestamp \<Rightarrow> mem_row \<Rightarrow> mem_row" where
  "close_row by' tm r =
     r\<lparr>m_superseded_by := Some by', m_invalid_at := Some tm,
       m_invalid_reason := Some superseded_str\<rparr>"

section \<open>What holds of every memory table\<close>

text \<open>A row is closed exactly when it has a reason, and superseded exactly when it has a successor.\<close>

definition close_ok :: "mem_row \<Rightarrow> bool" where
  "close_ok r \<longleftrightarrow>
     (m_invalid_at r = None \<longleftrightarrow> m_invalid_reason r = None) \<and>
     (m_superseded_by r \<noteq> None \<longleftrightarrow> m_invalid_reason r = Some superseded_str)"

definition successor_rel :: "mem_row list \<Rightarrow> (str \<times> str) set" where
  "successor_rel rows = {(m_id r, j) | r j. r \<in> set rows \<and> m_superseded_by r = Some j}"

definition rows_ok :: "mem_row list \<Rightarrow> bool" where
  "rows_ok rows \<longleftrightarrow>
     distinct (map m_id rows) \<and> distinct (map mem_key rows) \<and> list_all close_ok rows \<and>
     acyclic (successor_rel rows)"

text \<open>
  How a row may change: the claim itself never does, and a close, once there, stays as it is.
\<close>

definition keeps :: "mem_row \<Rightarrow> mem_row \<Rightarrow> bool" where
  "keeps x y \<longleftrightarrow>
     m_id x = m_id y \<and> m_space x = m_space y \<and> m_kind x = m_kind y \<and>
     m_content x = m_content y \<and> m_hash x = m_hash y \<and> m_entities x = m_entities y \<and>
     m_tags x = m_tags y \<and> m_decay x = m_decay y \<and> m_valid_from x = m_valid_from y \<and>
     m_supersedes x = m_supersedes y \<and> m_source x = m_source y \<and> m_writer x = m_writer y \<and>
     m_novelty x = m_novelty y \<and> m_derived_from x = m_derived_from y \<and>
     m_created_at x = m_created_at y \<and>
     (\<not> live x \<longrightarrow>
        m_invalid_at x = m_invalid_at y \<and> m_invalid_reason x = m_invalid_reason y \<and>
        m_superseded_by x = m_superseded_by y)"

definition evolves :: "mem_row list \<Rightarrow> mem_row list \<Rightarrow> bool" where
  "evolves rows rows' \<longleftrightarrow> (\<forall>x \<in> set rows. \<exists>y \<in> set rows'. keeps x y)"

lemma keeps_refl [simp]: "keeps x x"
  by (simp add: keeps_def)

lemma keeps_trans: "keeps x y \<Longrightarrow> keeps y z \<Longrightarrow> keeps x z"
  by (auto simp: keeps_def live_def)

lemma evolves_refl [simp]: "evolves rows rows"
  by (auto simp: evolves_def intro: keeps_refl)

lemma evolves_trans: "evolves a b \<Longrightarrow> evolves b c \<Longrightarrow> evolves a c"
  by (meson evolves_def keeps_trans)

lemma evolves_append: "evolves rows (rows @ new)"
  by (auto simp: evolves_def intro: keeps_refl)

lemma evolves_map: "(\<And>x. x \<in> set rows \<Longrightarrow> keeps x (f x)) \<Longrightarrow> evolves rows (map f rows)"
  by (auto simp: evolves_def)

lemma find_row_Some: "find_row rows i = Some r \<Longrightarrow> r \<in> set rows \<and> m_id r = i"
  by (auto simp: find_row_def find_Some_iff)

lemma find_row_None: "find_row rows i = None \<longleftrightarrow> i \<notin> m_id ` set rows"
  by (auto simp: find_row_def find_None_iff)

lemma find_row_distinct:
  "distinct (map m_id rows) \<Longrightarrow> r \<in> set rows \<Longrightarrow> find_row rows (m_id r) = Some r"
proof (induction rows)
  case (Cons a rows)
  then show ?case by (auto simp: find_row_def)
qed simp

lemma row_unique:
  "distinct (map m_id rows) \<Longrightarrow> x \<in> set rows \<Longrightarrow> y \<in> set rows \<Longrightarrow> m_id x = m_id y \<Longrightarrow> x = y"
  by (simp add: distinct_map inj_on_def)

section \<open>Writing one row\<close>

lemma put_row_Inr:
  "put_row r rows = Inr rows' \<longleftrightarrow>
     (\<forall>x \<in> set rows. m_id x \<noteq> m_id r \<longrightarrow> mem_key x \<noteq> mem_key r) \<and>
     rows' = map (\<lambda>x. if m_id x = m_id r then r else x) rows"
  by (auto simp: put_row_def list_ex_iff)

lemma put_row_ids: "put_row r rows = Inr rows' \<Longrightarrow> map m_id rows' = map m_id rows"
  by (auto simp: put_row_Inr)

lemma put_row_mem:
  assumes "put_row r rows = Inr rows'"
  shows "y \<in> set rows' \<Longrightarrow> y = r \<and> (\<exists>x \<in> set rows. m_id x = m_id r) \<or> y \<in> set rows \<and> m_id y \<noteq> m_id r"
    and "y \<in> set rows \<Longrightarrow> m_id y \<noteq> m_id r \<Longrightarrow> y \<in> set rows'"
    and "x \<in> set rows \<Longrightarrow> m_id x = m_id r \<Longrightarrow> r \<in> set rows'"
  using put_row_Inr [THEN iffD1, OF assms, THEN conjunct2]
  by (auto simp: image_iff split: if_splits)

lemma put_row_keys:
  assumes "put_row r rows = Inr rows'" and "distinct (map m_id rows)"
    and "distinct (map mem_key rows)"
  shows "distinct (map mem_key rows')"
  using assms
proof (induction rows arbitrary: rows')
  case (Cons a rows)
  let ?f = "\<lambda>x. if m_id x = m_id r then r else x"
  from Cons.prems(1) have rows': "rows' = ?f a # map ?f rows"
    and free: "\<And>x. x \<in> set (a # rows) \<Longrightarrow> m_id x \<noteq> m_id r \<Longrightarrow> mem_key x \<noteq> mem_key r"
    by (auto simp: put_row_Inr)
  have "put_row r rows = Inr (map ?f rows)" using free by (auto simp: put_row_Inr)
  with Cons have tail: "distinct (map mem_key (map ?f rows))" by auto
  have "mem_key (?f a) \<notin> set (map mem_key (map ?f rows))"
  proof (cases "m_id a = m_id r")
    case True
    then have "m_id r \<notin> m_id ` set rows" using Cons.prems(2) by simp
    then have other: "m_id x \<noteq> m_id r" if "x \<in> set rows" for x using that by (metis imageI)
    with True free show ?thesis by force
  next
    case False
    with free [of a] Cons.prems(3) show ?thesis by force
  qed
  with tail rows' show ?case by simp
qed (auto simp: put_row_Inr)

lemma put_row_evolves:
  assumes "put_row r rows = Inr rows'" and "x \<in> set rows" and "m_id x = m_id r" and "keeps x r"
    and "distinct (map m_id rows)"
  shows "evolves rows rows'"
  unfolding put_row_Inr [THEN iffD1, OF assms(1), THEN conjunct2]
proof (rule evolves_map)
  fix y
  assume "y \<in> set rows"
  then show "keeps y (if m_id y = m_id r then r else y)"
    using assms(2-5) row_unique [of rows x y] by auto
qed

lemma successor_rel_put:
  assumes "put_row r rows = Inr rows'"
  shows "successor_rel rows' \<subseteq>
    successor_rel rows \<union> (case m_superseded_by r of None \<Rightarrow> {} | Some j \<Rightarrow> {(m_id r, j)})"
proof (rule subrelI)
  fix i j
  assume "(i, j) \<in> successor_rel rows'"
  then obtain y where y: "y \<in> set rows'" "m_id y = i" "m_superseded_by y = Some j"
    by (auto simp: successor_rel_def)
  from put_row_mem(1) [OF assms y(1)] y(2,3)
  show "(i, j) \<in> successor_rel rows \<union>
      (case m_superseded_by r of None \<Rightarrow> {} | Some j \<Rightarrow> {(m_id r, j)})"
    by (auto simp: successor_rel_def)
qed

text \<open>A row without a successor reaches only itself, so an edge into it closes no cycle.\<close>

lemma no_successor_rtrancl:
  "\<forall>j. (i, j) \<notin> R \<Longrightarrow> (i, j) \<in> R\<^sup>* \<Longrightarrow> i = j"
  by (meson converse_rtranclE)

lemma successor_rel_live:
  assumes "rows_ok rows" and "r \<in> set rows" and "live r"
  shows "(m_id r, j) \<notin> successor_rel rows"
proof
  assume "(m_id r, j) \<in> successor_rel rows"
  then obtain x where "x \<in> set rows" "m_id x = m_id r" "m_superseded_by x = Some j"
    by (auto simp: successor_rel_def)
  moreover from this assms have "x = r" by (auto simp: rows_ok_def intro: row_unique)
  ultimately show False
    using assms by (auto simp: rows_ok_def list_all_iff close_ok_def live_def)
qed

lemma close_ok_close_row [simp]: "close_ok (close_row by' tm r)"
  by (simp add: close_ok_def close_row_def)

lemma close_row_simps [simp]:
  "m_id (close_row b tm r) = m_id r"
  "m_superseded_by (close_row b tm r) = Some b"
  "m_invalid_at (close_row b tm r) = Some tm"
  "m_invalid_reason (close_row b tm r) = Some superseded_str"
  "m_space (close_row b tm r) = m_space r"
  "m_hash (close_row b tm r) = m_hash r"
  by (simp_all add: close_row_def)

lemma keeps_close_row: "live r \<Longrightarrow> keeps r (close_row b tm r)"
  by (simp add: keeps_def close_row_def live_def)

lemma close_one_ok:
  assumes ok: "rows_ok rows" and r: "r \<in> set rows" "live r"
    and n: "n \<in> set rows" "live n" "m_id n \<noteq> m_id r"
    and put: "put_row (close_row (m_id n) tm r) rows = Inr rows'"
  shows "rows_ok rows' \<and> evolves rows rows' \<and> n \<in> set rows'"
proof -
  have ids: "distinct (map m_id rows')" using ok put_row_ids [OF put] by (simp add: rows_ok_def)
  have keys: "distinct (map mem_key rows')" using ok put_row_keys [OF put] by (simp add: rows_ok_def)
  have closes: "list_all close_ok rows'"
    using ok put_row_mem(1) [OF put] by (metis close_ok_close_row list_all_iff rows_ok_def)
  have "(m_id n, m_id r) \<notin> (successor_rel rows)\<^sup>*"
    using no_successor_rtrancl [of "m_id n" "successor_rel rows" "m_id r"]
      successor_rel_live [OF ok n(1,2)] n(3) by blast
  then have "acyclic (insert (m_id r, m_id n) (successor_rel rows))"
    using ok by (simp add: rows_ok_def)
  then have "acyclic (successor_rel rows')"
    using successor_rel_put [OF put] by (elim acyclic_subset) simp
  moreover have "evolves rows rows'"
    by (rule put_row_evolves [OF put r(1)]) (use ok r in \<open>auto simp: rows_ok_def keeps_close_row\<close>)
  moreover have "n \<in> set rows'" using n put_row_mem(2) [OF put] by simp
  ultimately show ?thesis using ids keys closes by (simp add: rows_ok_def)
qed

text \<open>Closing a list of rows in favour of one live row that is not among them.\<close>

lemma close_many_ok:
  assumes "update_where live (close_row (m_id n) tm) ids rows = Inr (rows', changed)"
    and "rows_ok rows" and "n \<in> set rows" and "live n" and "m_id n \<notin> set ids"
  shows "rows_ok rows' \<and> evolves rows rows' \<and> n \<in> set rows' \<and> map m_id rows' = map m_id rows"
  using assms
proof (induction ids arbitrary: rows rows' changed)
  case (Cons i ids)
  show ?case
  proof (cases "\<exists>r. find_row rows i = Some r \<and> live r")
    case False
    with Cons.prems(1) have "update_where live (close_row (m_id n) tm) ids rows = Inr (rows', changed)"
      by (auto split: option.splits)
    with Cons show ?thesis by auto
  next
    case True
    then obtain r where r: "find_row rows i = Some r" "live r" by blast
    with Cons.prems(1) obtain mid ch where
      put: "put_row (close_row (m_id n) tm r) rows = Inr mid"
      and rest: "update_where live (close_row (m_id n) tm) ids mid = Inr (rows', ch)"
      by auto
    have "m_id n \<noteq> m_id r" "r \<in> set rows" using Cons.prems(5) find_row_Some [OF r(1)] by auto
    from close_one_ok [OF Cons.prems(2) this(2) r(2) Cons.prems(3,4) this(1) put]
    have mid: "rows_ok mid" "evolves rows mid" "n \<in> set mid" by auto
    from Cons.IH [OF rest mid(1,3) Cons.prems(4)] Cons.prems(5) mid(2) put_row_ids [OF put]
    show ?thesis by (auto intro: evolves_trans)
  qed
qed auto

lemma update_where_length: "update_where P f ids rows = Inr (rows', changed) \<Longrightarrow>
    length changed \<le> length ids \<and> set changed \<subseteq> set ids"
proof (induction ids arbitrary: rows rows' changed)
  case (Cons i ids)
  from Cons.prems consider "update_where P f ids rows = Inr (rows', changed)"
    | r mid ch where "update_where P f ids mid = Inr (rows', ch)" "changed = i # ch"
    by (auto split: option.splits if_splits)
  then show ?case by cases (use Cons.IH in fastforce)+
qed auto

text \<open>
  The whole update at once: when no row can be changed twice, the statement changes exactly the
  named rows its condition admits and reports their ids.
\<close>

lemma update_where_map:
  assumes "update_where P f ids rows = Inr (rows', changed)" and "distinct (map m_id rows)"
    and "\<And>x. m_id (f x) = m_id x" and "distinct ids \<or> (\<forall>x. \<not> P (f x))"
  shows "rows' = map (\<lambda>x. if P x \<and> m_id x \<in> set ids then f x else x) rows
    \<and> set changed = m_id ` {x \<in> set rows. P x \<and> m_id x \<in> set ids}"
  using assms(1,2,4)
proof (induction ids arbitrary: rows rows' changed)
  case (Cons i ids)
  show ?case
  proof (cases "\<exists>r. find_row rows i = Some r \<and> P r")
    case False
    then have skip: "P x \<Longrightarrow> m_id x \<noteq> i" if "x \<in> set rows" for x
      using find_row_distinct [OF Cons.prems(2) that] by auto
    from False Cons.prems(1) have "update_where P f ids rows = Inr (rows', changed)"
      by (auto split: option.splits)
    from Cons.IH [OF this Cons.prems(2)] Cons.prems(3)
    have "rows' = map (\<lambda>x. if P x \<and> m_id x \<in> set ids then f x else x) rows
      \<and> set changed = m_id ` {x \<in> set rows. P x \<and> m_id x \<in> set ids}" by auto
    moreover have "(P x \<and> m_id x \<in> set ids) = (P x \<and> m_id x \<in> set (i # ids))"
      if "x \<in> set rows" for x using skip [OF that] by auto
    ultimately show ?thesis by (auto cong: map_cong conj_cong)
  next
    case True
    then obtain r where r: "find_row rows i = Some r" "P r" by blast
    with Cons.prems(1) obtain mid ch where put: "put_row (f r) rows = Inr mid"
      and rest: "update_where P f ids mid = Inr (rows', ch)" and ch: "changed = i # ch" by auto
    have r_in: "r \<in> set rows" "m_id r = i" using find_row_Some [OF r(1)] by auto
    have only: "m_id x = i \<longleftrightarrow> x = r" if "x \<in> set rows" for x
      using row_unique [OF Cons.prems(2) that r_in(1)] r_in(2) by auto
    have mid: "mid = map (\<lambda>x. if m_id x = i then f x else x) rows"
      using put only by (auto simp: put_row_Inr assms(3) r_in(2))
    have "distinct (map m_id mid)" using put_row_ids [OF put] Cons.prems(2) by simp
    from Cons.IH [OF rest this] Cons.prems(3)
    have "rows' = map (\<lambda>x. if P x \<and> m_id x \<in> set ids then f x else x) mid"
      and "set ch = m_id ` {x \<in> set mid. P x \<and> m_id x \<in> set ids}" by auto
    moreover have "\<not> P (f r) \<or> i \<notin> set ids" using Cons.prems(3) by auto
    moreover have "{x \<in> set mid. P x \<and> m_id x \<in> set ids} \<subseteq> insert (f r) (set rows)"
      using only by (auto simp: mid)
    moreover have "i \<in> m_id ` {x \<in> set rows. P x \<and> (m_id x = i \<or> m_id x \<in> set ids)}"
      using r(2) r_in by blast
    ultimately show ?thesis
      using r r_in only by (auto simp: mid assms(3) ch split: if_splits)
  qed
qed auto

section \<open>Creating a row\<close>

lemma create_row_Inr:
  "create_row r rows = Inr rows' \<longleftrightarrow>
     (\<forall>x \<in> set rows. m_id x \<noteq> m_id r \<and> mem_key x \<noteq> mem_key r) \<and> rows' = rows @ [r]"
  by (auto simp: create_row_def list_ex_iff)

lemma successor_rel_snoc:
  "m_superseded_by r = None \<Longrightarrow> successor_rel (rows @ [r]) = successor_rel rows"
  by (auto simp: successor_rel_def)

lemma create_row_ok:
  assumes "create_row r rows = Inr rows'" and "rows_ok rows" and "live r" and "close_ok r"
  shows "rows_ok rows' \<and> evolves rows rows' \<and> r \<in> set rows' \<and> m_id r \<notin> m_id ` set rows"
proof -
  from assms(3,4) have "m_superseded_by r = None" by (auto simp: close_ok_def live_def)
  with assms show ?thesis
    by (auto simp: create_row_Inr rows_ok_def successor_rel_snoc intro: evolves_append)
qed

text \<open>Deleting rows keeps what holds of the rest.\<close>

lemma rows_ok_filter:
  assumes "rows_ok rows"
  shows "rows_ok (filter P rows)"
proof -
  have "successor_rel (filter P rows) \<subseteq> successor_rel rows"
    by (auto simp: successor_rel_def)
  then have "acyclic (successor_rel (filter P rows))"
    by (rule acyclic_subset [rotated]) (use assms in \<open>simp add: rows_ok_def\<close>)
  with assms show ?thesis
    by (simp add: rows_ok_def distinct_map_filter list_all_iff)
qed

text \<open>
  Changing rows without touching a key, a close or an id keeps the table in order: reinforcement
  and re-embedding.
\<close>

lemma rows_ok_map:
  assumes "rows_ok rows"
    and "\<And>x. m_id (f x) = m_id x \<and> mem_key (f x) = mem_key x
      \<and> m_invalid_reason (f x) = m_invalid_reason x \<and> m_superseded_by (f x) = m_superseded_by x"
  shows "rows_ok (map f rows)"
proof -
  have tm: "m_invalid_at (f x) = m_invalid_at x" for x
    using assms(2) [of x] by (simp add: mem_key_def)
  have f: "m_id (f x) = m_id x" "m_superseded_by (f x) = m_superseded_by x" for x
    using assms(2) [of x] by simp_all
  have "successor_rel (map f rows) = successor_rel rows"
    unfolding successor_rel_def set_map by (auto simp: f) (metis f imageI)
  moreover have "map m_id (map f rows) = map m_id rows" "map mem_key (map f rows) = map mem_key rows"
    using assms(2) by simp_all
  moreover have "list_all close_ok (map f rows)"
    using assms tm by (simp add: rows_ok_def list_all_iff close_ok_def)
  ultimately show ?thesis using assms(1) by (simp only: rows_ok_def)
qed

end
