(* ===== verification/StoreWrite.thy ===== *)
theory StoreWrite
  imports StoreDb Scoring
begin

text \<open>
  The write half of the repository, \<open>crates/agmem-store/src/repo/write.rs\<close> with the SurrealQL it
  sends (\<open>queries/write.rs\<close>) and the two checks of \<open>repo/mod.rs\<close>.

  A transaction is a function from the store to an error or a new store: on an error the store
  is the one the transaction started from. The checks that precede a batch's transaction are requests
  of their own; what other sessions do between them and the transaction, and whether the engine
  refuses the commit, is the argument \<open>world\<close>.
\<close>

section \<open>What a caller writes\<close>

record new_memory =
  nm_kind :: kind
  nm_content :: str
  nm_entities :: "str list"
  nm_tags :: "str list"
  nm_embedding :: "flt list option"
  nm_decay_class :: "decay_class option"
  nm_valid_from :: "timestamp option"
  nm_supersedes :: "memory_id list"
  nm_source :: "source option"
  nm_derived_from :: "derivation list"
  nm_novelty :: "real option"

definition new_memory_new :: "kind \<Rightarrow> str \<Rightarrow> new_memory" where
  "new_memory_new k c =
     \<lparr>nm_kind = k, nm_content = c, nm_entities = [], nm_tags = [], nm_embedding = None,
      nm_decay_class = None, nm_valid_from = None, nm_supersedes = [], nm_source = None,
      nm_derived_from = [], nm_novelty = None\<rparr>"

record new_chunk =
  nc_text :: str
  nc_embedding :: "flt list option"

record new_episode =
  ne_content :: str
  ne_occurred_at :: "timestamp option"
  ne_session :: "str option"
  ne_chunks :: "new_chunk list"
  ne_title :: "str option"
  ne_doc_kind :: "doc_kind option"
  ne_tags :: "str list"
  ne_mime :: "str option"

definition new_episode_new :: "str \<Rightarrow> new_episode" where
  "new_episode_new c =
     \<lparr>ne_content = c, ne_occurred_at = None, ne_session = None, ne_chunks = [], ne_title = None,
      ne_doc_kind = None, ne_tags = [], ne_mime = None\<rparr>"

record batch =
  b_space :: space_name
  b_episode :: "new_episode option"
  b_memories :: "new_memory list"
  b_writer :: writer

datatype 'i written = Created 'i | Duplicate 'i

fun written_id :: "'i written \<Rightarrow> 'i" where
  "written_id (Created i) = i"
| "written_id (Duplicate i) = i"

fun is_created :: "'i written \<Rightarrow> bool" where
  "is_created (Created _) = True"
| "is_created (Duplicate _) = False"

record already_closed =
  ac_id :: memory_id
  ac_reason :: "str option"
  ac_by :: "memory_id option"

record batch_outcome =
  bo_episode :: "episode_id written option"
  bo_memories :: "memory_id written list"
  bo_superseded :: "memory_id list"
  bo_already_closed :: "already_closed list"

section \<open>Errors of a request\<close>

text \<open>\<open>str::contains\<close>.\<close>

fun str_contains :: "str \<Rightarrow> str \<Rightarrow> bool" where
  "str_contains needle [] = (needle = [])"
| "str_contains needle (c # s) =
     (take (length needle) (c # s) = needle \<or> str_contains needle s)"

fun db_text :: "db_error \<Rightarrow> str" where
  "db_text (DbError t) = t"

definition is_follow_on :: "db_error \<Rightarrow> bool" where
  "is_follow_on e \<longleftrightarrow>
     str_contains (lit ''failed transaction'') (db_text e) \<or>
     str_contains (lit ''Cannot COMMIT'') (db_text e)"

text \<open>\<open>checked\<close>: of the errors by statement, the first that says something, else the first.\<close>

definition checked :: "(nat \<times> db_error) list \<Rightarrow> db_error option" where
  "checked errors =
     (let ordered = map snd (sort_key fst errors) in
      case find (\<lambda>e. \<not> is_follow_on e) ordered of
        Some e \<Rightarrow> Some e
      | None \<Rightarrow> (case ordered of [] \<Rightarrow> None | e # _ \<Rightarrow> Some e))"

definition is_write_race :: "db_error \<Rightarrow> bool" where
  "is_write_race e \<longleftrightarrow>
     str_contains (lit ''mem_hash_live'') (db_text e) \<or>
     str_contains (lit ''episode_hash'') (db_text e) \<or>
     str_contains (lit ''failed transaction'') (db_text e) \<or>
     str_contains (lit ''Cannot COMMIT'') (db_text e)"

section \<open>The checks before a write\<close>

definition existing_memories :: "store \<Rightarrow> space_name \<Rightarrow> memory_id list \<Rightarrow> str list" where
  "existing_memories st space ids =
     map m_id (filter (\<lambda>r. m_space r = space_as_str space \<and> m_id r \<in> set (map memory_id_str ids))
       (st_memories st))"

definition ensure_memories_exist ::
  "store \<Rightarrow> space_name \<Rightarrow> memory_id list \<Rightarrow> store_error + unit" where
  "ensure_memories_exist st space ids =
     (case find (\<lambda>i. memory_id_str i \<notin> set (existing_memories st space ids)) ids of
        Some i \<Rightarrow> Inl (UnknownMemory space i)
      | None \<Rightarrow> Inr ())"

definition closed_row :: "mem_row \<Rightarrow> store_error + already_closed" where
  "closed_row r =
     and_then (map_err MalformedRow (memory_id_new (m_id r))) (\<lambda>i.
     and_then (map_err MalformedRow (transpose_result memory_id_new (m_superseded_by r))) (\<lambda>by'.
     Inr \<lparr>ac_id = i, ac_reason = m_invalid_reason r, ac_by = by'\<rparr>))"

definition closed_memories ::
  "store \<Rightarrow> space_name \<Rightarrow> memory_id list \<Rightarrow> store_error + already_closed list" where
  "closed_memories st space ids =
     collect_results closed_row
       (filter (\<lambda>r. m_space r = space_as_str space \<and> m_id r \<in> set (map memory_id_str ids)
          \<and> \<not> live r) (st_memories st))"

section \<open>The batch transaction\<close>

definition ep_key :: "ep_row \<Rightarrow> str \<times> str" where
  "ep_key r = (e_space r, e_hash r)"

definition episode_row :: "engine \<Rightarrow> space_name \<Rightarrow> writer \<Rightarrow> new_episode \<Rightarrow> str \<Rightarrow> ep_row" where
  "episode_row E space w ne i =
     \<lparr>e_id = i, e_space = space_as_str space, e_content = ne_content ne,
      e_hash = en_hash E (ne_content ne),
      e_occurred_at = en_datetime E (case ne_occurred_at ne of None \<Rightarrow> en_now E | Some t \<Rightarrow> t),
      e_session = ne_session ne, e_created_at = en_now E, e_title = ne_title ne,
      e_doc_kind = map_option doc_kind_as_str (ne_doc_kind ne),
      e_tags = (if ne_doc_kind ne \<noteq> None then Some (ne_tags ne) else None),
      e_mime = ne_mime ne, e_writer = Some (writer_row_new w)\<rparr>"

text \<open>\<open>FOR $chunk IN $ep_chunks { CREATE episode_chunk:ulid() \<dots> }\<close>\<close>

definition chunk_row_new :: "ep_row \<Rightarrow> nat \<Rightarrow> new_chunk \<Rightarrow> str \<Rightarrow> chunk_row" where
  "chunk_row_new ep position c i =
     \<lparr>c_id = i, c_episode = e_id ep, c_space = e_space ep, c_text = nc_text c,
      c_position = int position, c_occurred_at = Some (e_occurred_at ep),
      c_embedding = nc_embedding c\<rparr>"

fun create_chunks ::
  "engine \<Rightarrow> ep_row \<Rightarrow> nat \<Rightarrow> new_chunk list \<Rightarrow> store \<Rightarrow> db_error + store" where
  "create_chunks E ep position [] st = Inr st"
| "create_chunks E ep position (c # cs) st =
     (let (i, st') = mint E st in
      if list_ex (\<lambda>x. c_id x = i) (st_chunks st')
      then Inl (record_exists episode_chunk_table i)
      else create_chunks E ep (Suc position) cs
             (st'\<lparr>st_chunks := st_chunks st' @ [chunk_row_new ep position c i]\<rparr>))"

definition insert_episode ::
  "engine \<Rightarrow> space_name \<Rightarrow> writer \<Rightarrow> new_episode \<Rightarrow> store \<Rightarrow> db_error + (store \<times> str \<times> bool)" where
  "insert_episode E space w ne st =
     (case find (\<lambda>r. ep_key r = (space_as_str space, en_hash E (ne_content ne))) (st_episodes st) of
        Some dup \<Rightarrow> Inr (st, e_id dup, False)
      | None \<Rightarrow>
          let (i, st') = mint E st; ep = episode_row E space w ne i in
          if list_ex (\<lambda>r. e_id r = i) (st_episodes st') then Inl (record_exists episode_table i)
          else if list_ex (\<lambda>r. ep_key r = ep_key ep) (st_episodes st')
          then Inl (index_error (lit ''episode_hash''))
          else map_ok (\<lambda>st''. (st'', i, True))
                 (create_chunks E ep 0 (ne_chunks ne)
                    (st'\<lparr>st_episodes := st_episodes st' @ [ep]\<rparr>)))"

definition valid_from_of :: "engine \<Rightarrow> new_memory \<Rightarrow> timestamp" where
  "valid_from_of E nm =
     en_datetime E (case nm_valid_from nm of None \<Rightarrow> en_now E | Some t \<Rightarrow> t)"

definition memory_row ::
  "engine \<Rightarrow> space_name \<Rightarrow> writer \<Rightarrow> str option \<Rightarrow> new_memory \<Rightarrow> str \<Rightarrow> mem_row" where
  "memory_row E space w ep nm i =
     \<lparr>m_id = i, m_space = space_as_str space, m_kind = kind_as_str (nm_kind nm),
      m_content = nm_content nm, m_hash = en_hash E (nm_content nm),
      m_entities = nm_entities nm, m_tags = nm_tags nm, m_embedding = nm_embedding nm,
      m_decay = decay_class_as_str
        (case nm_decay_class nm of None \<Rightarrow> default_decay_class (nm_kind nm) | Some d \<Rightarrow> d),
      m_strength = 1, m_last_accessed = en_now E, m_access_count = 0,
      m_valid_from = valid_from_of E nm, m_invalid_at = None, m_invalid_reason = None,
      m_supersedes = map memory_id_str (nm_supersedes nm), m_superseded_by = None,
      m_source =
        (case (nm_source nm, ep) of
           (None, Some e) \<Rightarrow> \<lparr>sr_kind = lit ''episode'', sr_ref = Some (RefRecord episode_table e)\<rparr>
         | (None, None) \<Rightarrow> source_row_new Agent
         | (Some s, _) \<Rightarrow> source_row_new s),
      m_writer = Some (writer_row_new w), m_novelty = nm_novelty nm,
      m_derived_from = map derivation_ref (nm_derived_from nm), m_created_at = en_now E\<rparr>"

definition supersedes_throw :: "str list \<Rightarrow> db_error" where
  "supersedes_throw named =
     DbError (lit ''supersedes targets '' @ join [44, 32] (map (\<lambda>i. lit ''memory:'' @ i) named)
       @ [32, 8212, 32] @ lit ''one of them is gone or was closed by another writer'')"

definition live_duplicate :: "store \<Rightarrow> str \<Rightarrow> str \<Rightarrow> mem_row option" where
  "live_duplicate st space hash =
     find (\<lambda>r. m_space r = space \<and> m_hash r = hash \<and> live r) (st_memories st)"

text \<open>
  \<open>UPDATE $old SET superseded_by = \<dots> WHERE invalid_at IS NONE\<close> with the count behind it that
  throws; absent from the script when there is nothing to supersede.
\<close>

definition supersede_targets ::
  "str \<Rightarrow> timestamp \<Rightarrow> str list \<Rightarrow> str list \<Rightarrow> mem_row list \<Rightarrow> db_error + mem_row list" where
  "supersede_targets by' tm named targets rows =
     and_then (update_where live (close_row by' tm) targets rows) (\<lambda>(rows', changed).
       if length changed \<noteq> length targets then Inl (supersedes_throw named) else Inr rows')"

definition insert_memory ::
  "engine \<Rightarrow> space_name \<Rightarrow> writer \<Rightarrow> str option \<Rightarrow> new_memory \<Rightarrow> store \<Rightarrow>
   db_error + (store \<times> str \<times> bool)" where
  "insert_memory E space w ep nm st =
     (let old = map memory_id_str (nm_supersedes nm) in
      case live_duplicate st (space_as_str space) (en_hash E (nm_content nm)) of
        Some dup \<Rightarrow>
          if old = [] then Inr (st, m_id dup, False)
          else
            and_then (supersede_targets (m_id dup) (valid_from_of E nm) old
              (filter (\<lambda>i. i \<noteq> m_id dup) old) (st_memories st)) (\<lambda>rows.
            Inr (st\<lparr>st_memories := rows\<rparr>, m_id dup, False))
      | None \<Rightarrow>
          let (i, st') = mint E st; r = memory_row E space w ep nm i in
          and_then (create_row r (st_memories st')) (\<lambda>rows.
          if old = [] then Inr (st'\<lparr>st_memories := rows\<rparr>, i, True)
          else
            and_then (supersede_targets i (m_valid_from r) old old rows) (\<lambda>rows'.
            Inr (st'\<lparr>st_memories := rows'\<rparr>, i, True))))"

fun insert_memories ::
  "engine \<Rightarrow> space_name \<Rightarrow> writer \<Rightarrow> str option \<Rightarrow> new_memory list \<Rightarrow> store \<Rightarrow>
   db_error + (store \<times> (str \<times> bool) list)" where
  "insert_memories E space w ep [] st = Inr (st, [])"
| "insert_memories E space w ep (nm # nms) st =
     and_then (insert_memory E space w ep nm st) (\<lambda>(st', out).
     and_then (insert_memories E space w ep nms st') (\<lambda>(st'', outs).
     Inr (st'', out # outs)))"

definition insert_batch_txn ::
  "engine \<Rightarrow> batch \<Rightarrow> new_memory list \<Rightarrow> store \<Rightarrow>
   db_error + (store \<times> (str \<times> bool) option \<times> (str \<times> bool) list)" where
  "insert_batch_txn E b nms st =
     and_then
       (case b_episode b of
          None \<Rightarrow> Inr (st, None)
        | Some ne \<Rightarrow> map_ok (\<lambda>(st', out). (st', Some out))
                       (insert_episode E (b_space b) (b_writer b) ne st)) (\<lambda>(st', ep).
     and_then (insert_memories E (b_space b) (b_writer b) (map_option fst ep) nms st')
       (\<lambda>(st'', outs). Inr (st'', ep, outs)))"

section \<open>One attempt and its retries\<close>

definition written_row :: "(str \<Rightarrow> core_error + 'i) \<Rightarrow> str \<times> bool \<Rightarrow> store_error + 'i written" where
  "written_row new row =
     map_ok (\<lambda>i. if snd row then Created i else Duplicate i) (map_err MalformedRow (new (fst row)))"

definition superseded_by_batch :: "new_memory list \<Rightarrow> memory_id written list \<Rightarrow> memory_id list" where
  "superseded_by_batch nms outs =
     concat (map (\<lambda>(nm, out). filter (\<lambda>old. case out of Created _ \<Rightarrow> True | Duplicate dup \<Rightarrow> old \<noteq> dup)
       (nm_supersedes nm)) (zip nms outs))"

definition drop_closed :: "already_closed list \<Rightarrow> new_memory \<Rightarrow> new_memory" where
  "drop_closed closed' nm =
     nm\<lparr>nm_supersedes := filter (\<lambda>i. \<not> list_ex (\<lambda>c. ac_id c = i) closed') (nm_supersedes nm)\<rparr>"

definition batch_report ::
  "new_memory list \<Rightarrow> already_closed list \<Rightarrow> (str \<times> bool) option \<Rightarrow> (str \<times> bool) list \<Rightarrow>
   store_error + batch_outcome" where
  "batch_report nms closed' ep outs =
     (if length outs \<noteq> length nms
      then Inl (UnexpectedResponse (lit ''the batch reported a different number of memories''))
      else
        and_then (collect_results (written_row memory_id_new) outs) (\<lambda>outcomes.
        and_then (transpose_result (written_row episode_id_new) ep) (\<lambda>episode'.
        Inr \<lparr>bo_episode = episode', bo_memories = outcomes,
             bo_superseded = superseded_by_batch nms outcomes,
             bo_already_closed = closed'\<rparr>)))"

type_synonym world = "store \<Rightarrow> store \<times> db_error option"

definition insert_batch_once ::
  "engine \<Rightarrow> world \<Rightarrow> store \<Rightarrow> batch \<Rightarrow> (store_error + batch_outcome) \<times> store" where
  "insert_batch_once E world st b =
     (let targets = concat (map nm_supersedes (b_memories b)) in
      case ensure_memories_exist st (b_space b) targets of
        Inl e \<Rightarrow> (Inl e, st)
      | Inr _ \<Rightarrow>
        (case closed_memories st (b_space b) targets of
           Inl e \<Rightarrow> (Inl e, st)
         | Inr closed' \<Rightarrow>
             let nms = map (drop_closed closed') (b_memories b); (st', conflict) = world st in
             case conflict of
               Some e \<Rightarrow> (Inl (Db e), st')
             | None \<Rightarrow>
               (case insert_batch_txn E b nms st' of
                  Inl e \<Rightarrow> (Inl (Db e), st')
                | Inr (st'', ep, outs) \<Rightarrow> (batch_report nms closed' ep outs, st''))))"

text \<open>
  The retry loop: \<open>attempts\<close> counts the races lost so far. Each attempt meets a world of its own.
\<close>

function insert_batch_loop ::
  "engine \<Rightarrow> (nat \<Rightarrow> world) \<Rightarrow> nat \<Rightarrow> store \<Rightarrow> batch \<Rightarrow> (store_error + batch_outcome) \<times> store" where
  "insert_batch_loop E worlds attempts st b =
     (case insert_batch_once E (worlds attempts) st b of
        (Inl (Db e), st') \<Rightarrow>
          if attempts < 2 \<and> is_write_race e
          then insert_batch_loop E worlds (Suc attempts) st' b else (Inl (Db e), st')
      | outcome \<Rightarrow> outcome)"
  by pat_completeness auto
termination
  by (relation "measure (\<lambda>(E, worlds, attempts, st, b). 2 - attempts)") auto

declare insert_batch_loop.simps [simp del]

definition insert_batch ::
  "engine \<Rightarrow> (nat \<Rightarrow> world) \<Rightarrow> store \<Rightarrow> batch \<Rightarrow> (store_error + batch_outcome) \<times> store" where
  "insert_batch E worlds st b = insert_batch_loop E worlds 0 st b"

section \<open>The other writes\<close>

definition ensure_space :: "space_name \<Rightarrow> store \<Rightarrow> store" where
  "ensure_space space st =
     (if space_as_str space \<in> set (st_spaces st) then st
      else st\<lparr>st_spaces := st_spaces st @ [space_as_str space]\<rparr>)"

definition supersede_txn :: "str \<Rightarrow> str \<Rightarrow> store \<Rightarrow> db_error + store" where
  "supersede_txn old new st =
     (case find_row (st_memories st) new of
        None \<Rightarrow> Inl (DbError (lit ''the superseding memory does not exist''))
      | Some n \<Rightarrow>
          and_then (update_where live (close_row new (m_valid_from n)) [old] (st_memories st))
            (\<lambda>(rows, changed).
          if changed = [] then Inl (DbError (lit ''the superseded memory is gone or already closed''))
          else Inr (st\<lparr>st_memories := rows\<rparr>)))"

definition supersede ::
  "world \<Rightarrow> space_name \<Rightarrow> memory_id \<Rightarrow> memory_id \<Rightarrow> store \<Rightarrow> (store_error + unit) \<times> store" where
  "supersede world space old new st =
     (case ensure_memories_exist st space [old, new] of
        Inl e \<Rightarrow> (Inl e, st)
      | Inr _ \<Rightarrow>
        (case closed_memories st space [old] of
           Inl e \<Rightarrow> (Inl e, st)
         | Inr closed' \<Rightarrow>
             if closed' \<noteq> [] then
               let c = last closed' in
               (Inl (AlreadyClosedError (ac_id c)
                  (case ac_reason c of None \<Rightarrow> lit ''closed'' | Some r \<Rightarrow> r) (ac_by c)), st)
             else
               let (st', conflict) = world st in
               case conflict of
                 Some e \<Rightarrow> (Inl (Db e), st')
               | None \<Rightarrow>
                 (case supersede_txn (memory_id_str old) (memory_id_str new) st' of
                    Inl e \<Rightarrow> (Inl (Db e), st')
                  | Inr st'' \<Rightarrow> (Inr (), st''))))"

record forget_request =
  f_spaces :: "space_name list"
  f_memories :: "memory_id list"
  f_episodes :: "episode_id list"
  f_purge :: bool

record forgotten =
  fg_memories :: "memory_id list"
  fg_episodes :: "episode_id list"
  fg_chunks :: nat

definition forget_row :: "engine \<Rightarrow> mem_row \<Rightarrow> mem_row" where
  "forget_row E r =
     r\<lparr>m_invalid_at := Some (en_now E),
       m_invalid_reason := Some (invalid_reason_as_str Forgotten)\<rparr>"

definition forget_soft ::
  "engine \<Rightarrow> str list \<Rightarrow> str list \<Rightarrow> store \<Rightarrow> db_error + (store \<times> str list)" where
  "forget_soft E spaces mems st =
     map_ok (\<lambda>(rows, changed). (st\<lparr>st_memories := rows\<rparr>, changed))
       (update_where (\<lambda>r. m_space r \<in> set spaces \<and> live r) (forget_row E) mems (st_memories st))"

text \<open>
  \<open>DELETE $ids WHERE \<dots> RETURN BEFORE\<close>: the rows come back in the order of the ids; the chunk
  delete is a table scan.
\<close>

definition forget_purge ::
  "str list \<Rightarrow> str list \<Rightarrow> str list \<Rightarrow> store \<Rightarrow> store \<times> str list \<times> str list \<times> nat" where
  "forget_purge spaces mems eps st =
     (let gone_chunk = (\<lambda>c. c_space c \<in> set spaces \<and> c_episode c \<in> set eps);
          gone_ep = (\<lambda>e. e_space e \<in> set spaces \<and> e_id e \<in> set eps);
          gone_mem = (\<lambda>m. m_space m \<in> set spaces \<and> m_id m \<in> set mems)
      in (st\<lparr>st_chunks := filter (\<lambda>c. \<not> gone_chunk c) (st_chunks st),
             st_episodes := filter (\<lambda>e. \<not> gone_ep e) (st_episodes st),
             st_memories := filter (\<lambda>m. \<not> gone_mem m) (st_memories st)\<rparr>,
          filter (\<lambda>i. \<exists>m \<in> set (st_memories st). m_id m = i \<and> gone_mem m) (keep_first [] mems),
          filter (\<lambda>i. \<exists>e \<in> set (st_episodes st). e_id e = i \<and> gone_ep e) (keep_first [] eps),
          length (filter gone_chunk (st_chunks st))))"

definition forget :: "engine \<Rightarrow> forget_request \<Rightarrow> store \<Rightarrow> (store_error + forgotten) \<times> store" where
  "forget E request st =
     (let spaces = map space_as_str (f_spaces request);
          mems = map memory_id_str (f_memories request) in
      if \<not> f_purge request then
        (case forget_soft E spaces mems st of
           Inl e \<Rightarrow> (Inl (Db e), st)
         | Inr (st', gone) \<Rightarrow>
             (map_ok (\<lambda>ids. \<lparr>fg_memories = ids, fg_episodes = [], fg_chunks = 0\<rparr>)
                (map_err MalformedRow (collect_results memory_id_new gone)), st'))
      else
        let (st', gone_m, gone_e, gone_c) =
              forget_purge spaces mems (map episode_id_str (f_episodes request)) st in
        (and_then (map_err MalformedRow (collect_results memory_id_new gone_m)) (\<lambda>ms.
         and_then (map_err MalformedRow (collect_results episode_id_new gone_e)) (\<lambda>es.
         Inr \<lparr>fg_memories = ms, fg_episodes = es, fg_chunks = gone_c\<rparr>)), st'))"

definition prune_class :: decay_class where
  "prune_class = Fast"

text \<open>
  \<open>PRUNE_EXPIRED\<close>: \<open>math::round\<close> to whole seconds, half away from zero (the product is positive),
  then one comparison of instants. The UPDATE walks the table.
\<close>

definition prune_due :: "engine \<Rightarrow> real \<Rightarrow> mem_row \<Rightarrow> bool" where
  "prune_due E horizon r \<longleftrightarrow>
     m_decay r = decay_class_as_str prune_class \<and> live r \<and>
     m_last_accessed r
       + 1000000000 * \<lfloor>horizon * min (max (m_strength r) min_stability) max_stability + 1 / 2\<rfloor>
       < en_now E"

definition expire_row :: "engine \<Rightarrow> mem_row \<Rightarrow> mem_row" where
  "expire_row E r =
     r\<lparr>m_invalid_at := Some (en_now E), m_invalid_reason := Some (invalid_reason_as_str Expired)\<rparr>"

definition prune_expired :: "engine \<Rightarrow> store \<Rightarrow> (store_error + memory_id list) \<times> store" where
  "prune_expired E st =
     (case decay_horizon_secs prune_class prune_retention of
        None \<Rightarrow> (Inr [], st)
      | Some horizon \<Rightarrow>
        (case update_where (prune_due E horizon) (expire_row E) (map m_id (st_memories st))
                (st_memories st) of
           Inl e \<Rightarrow> (Inl (Db e), st)
         | Inr (rows, changed) \<Rightarrow>
             (map_err MalformedRow (collect_results memory_id_new changed),
              st\<lparr>st_memories := rows\<rparr>)))"

text \<open>\<open>REINFORCE\<close> (\<open>queries/read.rs\<close>, sent by \<open>repo/read.rs\<close>): ids naming nothing are skipped.\<close>

definition reinforce_row :: "engine \<Rightarrow> mem_row \<Rightarrow> mem_row" where
  "reinforce_row E r =
     r\<lparr>m_strength := min (m_strength r + 1) max_stability,
       m_access_count := m_access_count r + 1, m_last_accessed := en_now E\<rparr>"

definition reinforce :: "engine \<Rightarrow> memory_id list \<Rightarrow> store \<Rightarrow> (store_error + nat) \<times> store" where
  "reinforce E ids st =
     (if ids = [] then (Inr 0, st)
      else case update_where (\<lambda>_. True) (reinforce_row E) (map memory_id_str ids) (st_memories st) of
          Inl e \<Rightarrow> (Inl (Db e), st)
        | Inr (rows, touched) \<Rightarrow> (Inr (length touched), st\<lparr>st_memories := rows\<rparr>))"

end
