(* ===== verification/StoreInv.thy ===== *)
theory StoreInv
  imports StoreWrite
begin

text \<open>
  What every write keeps of the store, and what it promises its caller: the tables stay in order
  (unique ids, the unique indexes, consistent closes, no supersession cycle, every row readable), a
  claim once written never changes, a close once made is never rewritten, and a batch lands whole or
  not at all.
\<close>

section \<open>A store in order\<close>

definition ids_ok :: "store \<Rightarrow> bool" where
  "ids_ok st \<longleftrightarrow>
     list_all is_ulid (map m_id (st_memories st)) \<and>
     list_all is_ulid (map e_id (st_episodes st)) \<and> list_all is_ulid (map c_id (st_chunks st))"

definition readable :: "mem_row \<Rightarrow> bool" where
  "readable r \<longleftrightarrow> (\<exists>m. into_record r = Inr m)"

definition ep_readable :: "ep_row \<Rightarrow> bool" where
  "ep_readable e \<longleftrightarrow> (\<exists>x. into_episode e = Inr x)"

definition chunk_readable :: "chunk_row \<Rightarrow> bool" where
  "chunk_readable c \<longleftrightarrow> (\<exists>x. into_chunk c = Inr x)"

definition store_ok :: "store \<Rightarrow> bool" where
  "store_ok st \<longleftrightarrow>
     rows_ok (st_memories st) \<and> ids_ok st \<and>
     distinct (map e_id (st_episodes st)) \<and> distinct (map ep_key (st_episodes st)) \<and>
     distinct (map c_id (st_chunks st)) \<and> list_all readable (st_memories st) \<and>
     list_all ep_readable (st_episodes st) \<and> list_all chunk_readable (st_chunks st)"

text \<open>Typed input: ids and names went through their checked constructors.\<close>

definition nm_ok :: "new_memory \<Rightarrow> bool" where
  "nm_ok nm \<longleftrightarrow>
     list_all memory_id_ok (nm_supersedes nm) \<and> pred_option source_ok (nm_source nm) \<and>
     list_all derivation_ok (nm_derived_from nm)"

definition batch_ok :: "batch \<Rightarrow> bool" where
  "batch_ok b \<longleftrightarrow> space_ok (b_space b) \<and> list_all nm_ok (b_memories b)"

definition grows :: "store \<Rightarrow> store \<Rightarrow> bool" where
  "grows st st' \<longleftrightarrow>
     st_minted st \<le> st_minted st' \<and> evolves (st_memories st) (st_memories st')"

text \<open>What other sessions may do between a check and a transaction: their own writes.\<close>

definition world_ok :: "world \<Rightarrow> bool" where
  "world_ok w \<longleftrightarrow>
     (\<forall>st. store_ok st \<longrightarrow> store_ok (fst (w st)) \<and> grows st (fst (w st)))"

definition quiet :: world where
  "quiet st = (st, None)"

lemma grows_refl [simp]: "grows st st"
  by (simp add: grows_def)

lemma grows_trans: "grows a b \<Longrightarrow> grows b c \<Longrightarrow> grows a c"
  by (auto simp: grows_def intro: evolves_trans)

lemma world_ok_quiet [simp]: "world_ok quiet"
  by (simp add: world_ok_def quiet_def)

definition known :: "store \<Rightarrow> new_memory list \<Rightarrow> bool" where
  "known st nms \<longleftrightarrow>
     (\<forall>nm \<in> set nms. memory_id_str ` set (nm_supersedes nm) \<subseteq> m_id ` set (st_memories st))"

text \<open>Ids stay: what names a memory names one after any write but a purge.\<close>

lemma ids_grow:
  assumes "grows st st'"
  shows "m_id ` set (st_memories st) \<subseteq> m_id ` set (st_memories st')"
proof (intro image_subsetI)
  fix x
  assume "x \<in> set (st_memories st)"
  with assms obtain y where "y \<in> set (st_memories st')" "keeps x y"
    unfolding grows_def evolves_def by blast
  then show "m_id x \<in> m_id ` set (st_memories st')" by (simp add: keeps_def)
qed

lemma known_grows: "known st nms \<Longrightarrow> grows st st' \<Longrightarrow> known st' nms"
  using ids_grow unfolding known_def by blast

lemma known_Cons [simp]:
  "known st (nm # nms) \<longleftrightarrow>
     memory_id_str ` set (nm_supersedes nm) \<subseteq> m_id ` set (st_memories st) \<and> known st nms"
  by (simp add: known_def)

section \<open>Readable rows\<close>

lemma readable_iff:
  "readable r \<longleftrightarrow>
     is_ulid (m_id r) \<and> (\<exists>n. space_name_new (m_space r) = Inr n) \<and>
     (\<exists>k. kind_from_str (m_kind r) = Inr k) \<and> (\<exists>d. decay_class_from_str (m_decay r) = Inr d) \<and>
     (\<exists>x. transpose_result invalid_reason_from_str (m_invalid_reason r) = Inr x) \<and>
     (\<exists>x. collect_results memory_id_new (m_supersedes r) = Inr x) \<and>
     (\<exists>x. transpose_result memory_id_new (m_superseded_by r) = Inr x) \<and>
     (\<exists>s. to_source (sr_kind (m_source r)) (map_option flatten_ref (sr_ref (m_source r))) = Inr s) \<and>
     (\<exists>x. collect_results into_derivation (m_derived_from r) = Inr x)"
  by (auto simp: readable_def into_record_def)

lemma invalid_reason_reads: "invalid_reason_from_str (invalid_reason_as_str x) = Inr x"
  by (simp only: invalid_reason_parse_iff)

lemma readable_reason:
  "readable r \<Longrightarrow> readable (r\<lparr>m_invalid_at := a, m_invalid_reason := Some (invalid_reason_as_str x)\<rparr>)"
  by (simp add: readable_iff invalid_reason_reads)

lemma readable_forget: "readable r \<Longrightarrow> readable (forget_row E r)"
  unfolding forget_row_def by (rule readable_reason)

lemma readable_expire: "readable r \<Longrightarrow> readable (expire_row E r)"
  unfolding expire_row_def by (rule readable_reason)

lemma readable_close_row: "readable r \<Longrightarrow> is_ulid b \<Longrightarrow> readable (close_row b tm r)"
  by (simp add: readable_iff close_row_def superseded_str_def invalid_reason_reads
    del: invalid_reason_as_str.simps)

lemma readable_reinforce: "readable r \<Longrightarrow> readable (reinforce_row E r)"
  by (simp add: readable_iff reinforce_row_def)

lemma readable_memory_row:
  assumes "nm_ok nm" and "space_ok space" and "is_ulid i" and "pred_option is_ulid ep"
  shows "readable (memory_row E space w ep nm i)"
proof -
  have "\<exists>s. to_source (sr_kind (m_source (memory_row E space w ep nm i)))
      (map_option flatten_ref (sr_ref (m_source (memory_row E space w ep nm i)))) = Inr s"
  proof (cases "nm_source nm")
    case None
    then show ?thesis
      using assms(4) by (cases ep) (auto simp: memory_row_def to_source_def lit_inject)
  next
    case (Some s)
    with assms(1) show ?thesis
      using to_source_row [of s] by (auto simp: memory_row_def nm_ok_def split: option.splits)
  qed
  moreover have "collect_results memory_id_new (map memory_id_str (nm_supersedes nm))
      = Inr (nm_supersedes nm)"
    by (rule collect_map_roundtrip [where P = memory_id_ok])
      (use assms(1) in \<open>auto simp: nm_ok_def memory_id_ok_def\<close>)
  moreover have "collect_results into_derivation (map derivation_ref (nm_derived_from nm))
      = Inr (nm_derived_from nm)"
    by (rule collect_map_roundtrip [where P = derivation_ok])
      (use assms(1) in \<open>auto simp: nm_ok_def\<close>)
  ultimately show ?thesis
    using assms(2,3) unfolding readable_iff
    by (auto simp: memory_row_def space_ok_def kind_parse_iff decay_class_parse_iff)
qed

section \<open>Updates row by row\<close>

lemma update_where_all:
  assumes "update_where P f ids rows = Inr (rows', changed)" and "\<forall>x \<in> set rows. Q x"
    and "\<And>x. Q x \<Longrightarrow> P x \<Longrightarrow> Q (f x)" and "\<And>x. m_id (f x) = m_id x"
  shows "\<forall>x \<in> set rows'. Q x"
  using assms(1,2)
proof (induction ids arbitrary: rows rows' changed)
  case (Cons i ids)
  show ?case
  proof (cases "\<exists>r. find_row rows i = Some r \<and> P r")
    case False
    with Cons.prems have "update_where P f ids rows = Inr (rows', changed)"
      by (auto split: option.splits)
    with Cons show ?thesis by blast
  next
    case True
    then obtain r where r: "find_row rows i = Some r" "P r" by blast
    with Cons.prems(1) obtain mid ch where put: "put_row (f r) rows = Inr mid"
      and rest: "update_where P f ids mid = Inr (rows', ch)" by auto
    have "Q (f r)" using r Cons.prems(2) find_row_Some [OF r(1)] assms(3) by blast
    then have "\<forall>x \<in> set mid. Q x" using put_row_mem(1) [OF put] Cons.prems(2) by blast
    with Cons.IH [OF rest] show ?thesis by blast
  qed
qed simp

text \<open>
  An update that keeps ids and successors, and closes with a reason other than a supersession or
  closes nothing, keeps the table in order.
\<close>

lemma update_where_ok:
  assumes "update_where P f ids rows = Inr (rows', changed)" and "rows_ok rows"
    and "\<And>x. close_ok x \<Longrightarrow> P x \<Longrightarrow>
      m_superseded_by (f x) = m_superseded_by x \<and> close_ok (f x) \<and> keeps x (f x)"
    and "\<And>x. m_id (f x) = m_id x"
  shows "rows_ok rows' \<and> evolves rows rows' \<and> map m_id rows' = map m_id rows"
  using assms(1,2)
proof (induction ids arbitrary: rows rows' changed)
  case (Cons i ids)
  show ?case
  proof (cases "\<exists>r. find_row rows i = Some r \<and> P r")
    case False
    with Cons.prems have "update_where P f ids rows = Inr (rows', changed)"
      by (auto split: option.splits)
    with Cons show ?thesis by blast
  next
    case True
    then obtain r where r: "find_row rows i = Some r" "P r" by blast
    with Cons.prems(1) obtain mid ch where put: "put_row (f r) rows = Inr mid"
      and rest: "update_where P f ids mid = Inr (rows', ch)" by auto
    have r_in: "r \<in> set rows" using find_row_Some [OF r(1)] by simp
    then have cr: "close_ok r" using Cons.prems(2) by (simp add: rows_ok_def list_all_iff)
    note fr = assms(3) [OF cr r(2)]
    have "successor_rel mid \<subseteq> successor_rel rows"
    proof (rule subrelI)
      fix a b
      assume "(a, b) \<in> successor_rel mid"
      then obtain y where "y \<in> set mid" "m_id y = a" "m_superseded_by y = Some b"
        by (auto simp: successor_rel_def)
      with put_row_mem(1) [OF put] fr r_in assms(4) show "(a, b) \<in> successor_rel rows"
        unfolding successor_rel_def by (smt (verit) mem_Collect_eq)
    qed
    then have "acyclic (successor_rel mid)"
      by (rule acyclic_subset [rotated]) (use Cons.prems(2) in \<open>simp add: rows_ok_def\<close>)
    moreover have "list_all close_ok mid"
      using put_row_mem(1) [OF put] fr Cons.prems(2) by (metis list_all_iff rows_ok_def)
    moreover have "distinct (map mem_key mid)" "map m_id mid = map m_id rows"
      using put_row_keys [OF put] put_row_ids [OF put] Cons.prems(2) by (simp_all add: rows_ok_def)
    ultimately have mid: "rows_ok mid"
      using Cons.prems(2) by (simp add: rows_ok_def)
    have "evolves rows mid"
      by (rule put_row_evolves [OF put r_in])
        (use fr assms(4) Cons.prems(2) in \<open>auto simp: rows_ok_def\<close>)
    with Cons.IH [OF rest mid] \<open>map m_id mid = map m_id rows\<close> show ?thesis
      by (auto intro: evolves_trans)
  qed
qed auto

lemma store_ok_rows:
  assumes "store_ok st" and "rows_ok rows" and "map m_id rows = map m_id (st_memories st)"
    and "\<forall>x \<in> set rows. readable x"
  shows "store_ok (st\<lparr>st_memories := rows\<rparr>)"
proof -
  have "list_all is_ulid (map m_id rows)"
    unfolding assms(3) using assms(1) by (simp add: store_ok_def ids_ok_def)
  moreover have "list_all readable rows" using assms(4) by (simp add: list_all_iff)
  ultimately show ?thesis using assms(1,2) by (simp add: store_ok_def ids_ok_def)
qed

section \<open>The episode of a batch\<close>

lemma doc_kind_reads: "doc_kind_from_str (doc_kind_as_str k) = Inr k"
  by (simp only: doc_kind_parse_iff)

lemma ep_readable_row:
  "space_ok space \<Longrightarrow> is_ulid i \<Longrightarrow> ep_readable (episode_row E space w ne i)"
  by (cases "ne_doc_kind ne")
    (simp_all add: ep_readable_def into_episode_def episode_row_def episode_id_new_def
      record_id_new_def space_roundtrip doc_kind_reads del: doc_kind_as_str.simps)

lemma chunk_readable_row:
  "ep_readable ep \<Longrightarrow> is_ulid i \<Longrightarrow> chunk_readable (chunk_row_new ep p c i)"
  by (auto simp: ep_readable_def chunk_readable_def into_episode_def into_chunk_def
      chunk_row_new_def chunk_id_new_def record_id_new_def)

lemma create_chunks_ok:
  assumes "create_chunks E ep p cs st = Inr st'" and "engine_ok E" and "store_ok st"
    and "ep_readable ep"
  shows "store_ok st' \<and> grows st st' \<and> st_memories st' = st_memories st
    \<and> st_episodes st' = st_episodes st"
  using assms(1,3)
proof (induction cs arbitrary: p st)
  case (Cons c cs)
  let ?i = "en_ulid E (st_minted st)"
  let ?st = "st\<lparr>st_minted := Suc (st_minted st),
      st_chunks := st_chunks st @ [chunk_row_new ep p c ?i]\<rparr>"
  have fresh: "?i \<notin> c_id ` set (st_chunks st)" and rest: "create_chunks E ep (Suc p) cs ?st = Inr st'"
    using Cons.prems(1) by (auto simp: mint_def list_ex_iff split: if_splits)
  have "c_id (chunk_row_new ep p c ?i) = ?i" "is_ulid ?i"
    using assms(2) by (simp_all add: chunk_row_new_def engine_ok_def)
  with fresh Cons.prems(2) chunk_readable_row [OF assms(4), of ?i] have "store_ok ?st"
    by (auto simp: store_ok_def ids_ok_def)
  from Cons.IH [OF rest this] show ?case by (simp add: grows_def)
qed simp

lemma insert_episode_ok:
  assumes "insert_episode E space w ne st = Inr (st', out)" and "engine_ok E" and "store_ok st"
    and "space_ok space"
  shows "store_ok st' \<and> grows st st' \<and> st_memories st' = st_memories st \<and> is_ulid (fst out)"
proof (cases "find (\<lambda>r. ep_key r = (space_as_str space, en_hash E (ne_content ne))) (st_episodes st)")
  case (Some dup)
  then have "dup \<in> set (st_episodes st)" by (auto simp: find_Some_iff)
  then have "is_ulid (e_id dup)"
    using assms(3) by (auto simp: store_ok_def ids_ok_def list_all_iff)
  with Some assms show ?thesis by (auto simp: insert_episode_def)
next
  case None
  let ?i = "en_ulid E (st_minted st)"
  let ?ep = "episode_row E space w ne ?i"
  let ?st = "st\<lparr>st_minted := Suc (st_minted st), st_episodes := st_episodes st @ [?ep]\<rparr>"
  have chunks: "create_chunks E ?ep 0 (ne_chunks ne) ?st = Inr st'" and out: "out = (?i, True)"
    and fresh: "?i \<notin> e_id ` set (st_episodes st)"
    and key: "\<forall>r \<in> set (st_episodes st). ep_key r \<noteq> ep_key ?ep"
    using None assms(1)
    by (auto simp: insert_episode_def mint_def Let_def list_ex_iff split: if_splits)
  have "e_id ?ep = ?i" "is_ulid ?i"
    using assms(2) by (simp_all add: episode_row_def engine_ok_def)
  moreover have "ep_readable ?ep" by (rule ep_readable_row [OF assms(4) \<open>is_ulid ?i\<close>])
  ultimately have "store_ok ?st"
    using fresh key assms(3) by (auto simp: store_ok_def ids_ok_def)
  from create_chunks_ok [OF chunks assms(2) this \<open>ep_readable ?ep\<close>] \<open>is_ulid ?i\<close>
  show ?thesis by (auto simp: out grows_def)
qed

text \<open>The guard is what keeps a duplicate episode off the unique index: it never aborts there.\<close>

lemma create_chunks_error:
  "create_chunks E ep p cs st = Inl e \<Longrightarrow> \<exists>i. e = record_exists episode_chunk_table i"
  by (induction cs arbitrary: p st) (auto simp: mint_def split: if_splits)

lemma insert_episode_error:
  assumes "insert_episode E space w ne st = Inl e"
  shows "\<exists>t i. e = record_exists t i"
proof (cases "find (\<lambda>r. ep_key r = (space_as_str space, en_hash E (ne_content ne))) (st_episodes st)")
  case None
  then have "\<not> list_ex (\<lambda>r. ep_key r = ep_key (episode_row E space w ne i)) (st_episodes st)" for i
    by (auto simp: find_None_iff list_ex_iff ep_key_def episode_row_def)
  with None assms consider "e = record_exists episode_table (en_ulid E (st_minted st))"
    | i st' where "create_chunks E (episode_row E space w ne i) 0 (ne_chunks ne) st' = Inl e"
    by (auto simp: insert_episode_def mint_def Let_def map_ok_def split: if_splits sum.splits)
  then show ?thesis by cases (blast dest: create_chunks_error)+
qed (use assms in \<open>auto simp: insert_episode_def\<close>)

section \<open>One memory of a batch\<close>

definition holds_claim :: "store \<Rightarrow> str \<Rightarrow> str \<Rightarrow> str \<Rightarrow> bool" where
  "holds_claim st space hash i \<longleftrightarrow>
     (\<exists>r \<in> set (st_memories st). m_id r = i \<and> m_space r = space \<and> m_hash r = hash)"

lemma holds_claim_grows:
  assumes "holds_claim st s h i" and "grows st st'"
  shows "holds_claim st' s h i"
proof -
  from assms(1) obtain r where r: "r \<in> set (st_memories st)" "m_id r = i" "m_space r = s" "m_hash r = h"
    by (auto simp: holds_claim_def)
  with assms(2) obtain y where "y \<in> set (st_memories st')" "keeps r y"
    unfolding grows_def evolves_def by blast
  with r show ?thesis unfolding holds_claim_def keeps_def by metis
qed

lemma live_duplicate_Some:
  "live_duplicate st s h = Some d \<Longrightarrow>
   d \<in> set (st_memories st) \<and> m_space d = s \<and> m_hash d = h \<and> live d"
  by (auto simp: live_duplicate_def find_Some_iff)

lemma live_duplicate_None:
  "live_duplicate st s h = None \<Longrightarrow> r \<in> set (st_memories st) \<Longrightarrow> m_space r = s \<Longrightarrow> m_hash r = h \<Longrightarrow>
   \<not> live r"
  by (auto simp: live_duplicate_def find_None_iff)

lemma supersede_targets_ok:
  assumes "supersede_targets (m_id n) tm named targets rows = Inr rows'"
    and "rows_ok rows" and "n \<in> set rows" and "live n" and "m_id n \<notin> set targets"
    and "\<forall>x \<in> set rows. readable x" and "is_ulid (m_id n)"
  shows "rows_ok rows' \<and> evolves rows rows' \<and> n \<in> set rows' \<and> map m_id rows' = map m_id rows
    \<and> (\<forall>x \<in> set rows'. readable x)"
proof -
  from assms(1) obtain changed where
    upd: "update_where live (close_row (m_id n) tm) targets rows = Inr (rows', changed)"
    by (auto simp: supersede_targets_def split: if_splits)
  have "\<forall>x \<in> set rows'. readable x"
    by (rule update_where_all [OF upd assms(6)]) (simp_all add: readable_close_row assms(7))
  with close_many_ok [OF upd assms(2-5)] show ?thesis by simp
qed

lemma insert_memory_ok:
  assumes ins: "insert_memory E space w ep nm st = Inr (st', out)" and "engine_ok E"
    and ok: "store_ok st" and nm: "nm_ok nm" and space: "space_ok space"
    and ep: "pred_option is_ulid ep"
    and targets: "memory_id_str ` set (nm_supersedes nm) \<subseteq> m_id ` set (st_memories st)"
  shows "store_ok st' \<and> grows st st'
    \<and> holds_claim st' (space_as_str space) (en_hash E (nm_content nm)) (fst out)
    \<and> is_ulid (fst out)"
proof (cases "live_duplicate st (space_as_str space) (en_hash E (nm_content nm))")
  case (Some dup)
  note d = live_duplicate_Some [OF Some]
  have ulid: "is_ulid (m_id dup)"
    using d ok by (auto simp: store_ok_def ids_ok_def list_all_iff)
  have out: "fst out = m_id dup"
    using ins Some by (auto simp: insert_memory_def Let_def split: if_splits)
  show ?thesis
  proof (cases "nm_supersedes nm = []")
    case True
    with ins Some out d ulid ok show ?thesis
      by (auto simp: insert_memory_def holds_claim_def)
  next
    case False
    with ins Some obtain rows where st': "st' = st\<lparr>st_memories := rows\<rparr>"
      and sup: "supersede_targets (m_id dup) (valid_from_of E nm)
        (map memory_id_str (nm_supersedes nm)) (filter (\<lambda>i. i \<noteq> m_id dup) (map memory_id_str (nm_supersedes nm))) (st_memories st) = Inr rows"
      by (auto simp: insert_memory_def Let_def split: if_splits)
    have "rows_ok (st_memories st)" "\<forall>x \<in> set (st_memories st). readable x"
      using ok by (simp_all add: store_ok_def list_all_iff)
    from supersede_targets_ok [OF sup this(1) _ _ _ this(2) ulid] d
    have r: "rows_ok rows" "evolves (st_memories st) rows" "dup \<in> set rows"
      "map m_id rows = map m_id (st_memories st)" "\<forall>x \<in> set rows. readable x"
      by auto
    with store_ok_rows [OF ok r(1,4,5)] st' out d ulid show ?thesis
      by (auto simp: grows_def holds_claim_def)
  qed
next
  case None
  let ?i = "en_ulid E (st_minted st)"
  let ?r = "memory_row E space w ep nm ?i"
  let ?st = "st\<lparr>st_minted := Suc (st_minted st)\<rparr>"
  let ?old = "map memory_id_str (nm_supersedes nm)"
  have ulid: "is_ulid ?i" using assms(2) by (simp add: engine_ok_def)
  have row: "m_id ?r = ?i" "live ?r" "close_ok ?r" "m_space ?r = space_as_str space"
    "m_hash ?r = en_hash E (nm_content nm)"
    by (simp_all add: memory_row_def live_def close_ok_def)
  obtain rows rows' where create: "create_row ?r (st_memories st) = Inr rows"
    and st': "st' = ?st\<lparr>st_memories := rows'\<rparr>" and out: "out = (?i, True)"
    and sup: "rows' = rows \<or> supersede_targets ?i (m_valid_from ?r) ?old ?old rows = Inr rows'"
    using ins None by (auto simp: insert_memory_def mint_def Let_def split: if_splits)
  have ok0: "rows_ok (st_memories st)" using ok by (simp add: store_ok_def)
  from create_row_ok [OF create ok0 row(2,3)]
  have c: "rows_ok rows" "evolves (st_memories st) rows" "?r \<in> set rows"
    and new1: "?i \<notin> m_id ` set (st_memories st)" by (auto simp: row(1))
  have new: "?i \<notin> set ?old" using new1 targets by auto
  have c_ids: "map m_id rows = map m_id (st_memories st) @ [?i]"
    using create row(1) by (simp add: create_row_Inr)
  have c_read: "\<forall>x \<in> set rows. readable x"
    using create ok readable_memory_row [OF nm space ulid ep]
    by (auto simp: create_row_Inr store_ok_def list_all_iff)
  have "rows_ok rows' \<and> evolves rows rows' \<and> ?r \<in> set rows' \<and> map m_id rows' = map m_id rows
      \<and> (\<forall>x \<in> set rows'. readable x)"
    using sup
  proof
    assume "rows' = rows"
    with c c_read show ?thesis by simp
  next
    assume "supersede_targets ?i (m_valid_from ?r) ?old ?old rows = Inr rows'"
    then have "supersede_targets (m_id ?r) (m_valid_from ?r) ?old ?old rows = Inr rows'"
      by (simp only: row(1))
    from supersede_targets_ok [OF this c(1,3) row(2) _ c_read] new row(1) ulid
    show ?thesis by simp
  qed
  then have f: "rows_ok rows'" "evolves rows rows'" "?r \<in> set rows'"
    "map m_id rows' = map m_id (st_memories st) @ [?i]" "\<forall>x \<in> set rows'. readable x"
    using c_ids by auto
  have "list_all is_ulid (map m_id rows')"
    unfolding f(4) using ok ulid by (simp add: store_ok_def ids_ok_def)
  moreover have "list_all readable rows'" using f(5) by (simp add: list_all_iff)
  ultimately have "store_ok st'"
    using ok f(1) by (simp add: store_ok_def ids_ok_def st')
  moreover have "grows st st'"
    using evolves_trans [OF c(2) f(2)] by (simp add: grows_def st')
  moreover have "holds_claim st' (space_as_str space) (en_hash E (nm_content nm)) ?i"
    using f(3) row by (auto simp: holds_claim_def st')
  ultimately show ?thesis using out ulid by simp
qed

section \<open>The whole batch\<close>

lemma insert_memories_ok:
  assumes "insert_memories E space w ep nms st = Inr (st', outs)" and "engine_ok E"
    and "store_ok st" and "list_all nm_ok nms" and "space_ok space" and "pred_option is_ulid ep"
    and "known st nms"
  shows "store_ok st' \<and> grows st st' \<and> list_all2 (\<lambda>nm out.
      holds_claim st' (space_as_str space) (en_hash E (nm_content nm)) (fst out)
      \<and> is_ulid (fst out)) nms outs"
  using assms(1,3,4,7)
proof (induction nms arbitrary: st outs)
  case (Cons nm nms)
  from Cons.prems(1) obtain mid out outs' where
    one: "insert_memory E space w ep nm st = Inr (mid, out)"
    and rest: "insert_memories E space w ep nms mid = Inr (st', outs')" and outs: "outs = out # outs'"
    by auto
  from insert_memory_ok [OF one assms(2) Cons.prems(2) _ assms(5,6)] Cons.prems(3,4)
  have mid: "store_ok mid" "grows st mid" "is_ulid (fst out)"
    "holds_claim mid (space_as_str space) (en_hash E (nm_content nm)) (fst out)"
    by auto
  have "known mid nms"
    by (rule known_grows [OF _ mid(2)]) (use Cons.prems(4) in simp)
  from Cons.IH [OF rest mid(1) _ this] Cons.prems(3)
  have "store_ok st'" "grows mid st'" "list_all2 (\<lambda>nm out.
      holds_claim st' (space_as_str space) (en_hash E (nm_content nm)) (fst out)
      \<and> is_ulid (fst out)) nms outs'"
    by auto
  with mid outs show ?case by (auto intro: grows_trans holds_claim_grows)
qed auto

lemma insert_batch_txn_ok:
  assumes "insert_batch_txn E b nms st = Inr (st', ep, outs)" and "engine_ok E"
    and "store_ok st" and "list_all nm_ok nms" and "space_ok (b_space b)"
    and "known st nms"
  shows "store_ok st' \<and> grows st st' \<and> pred_option (\<lambda>e. is_ulid (fst e)) ep
    \<and> list_all2 (\<lambda>nm out.
      holds_claim st' (space_as_str (b_space b)) (en_hash E (nm_content nm)) (fst out)
      \<and> is_ulid (fst out)) nms outs"
proof -
  from assms(1) obtain mid where
    ep: "(case b_episode b of
          None \<Rightarrow> Inr (st, None)
        | Some ne \<Rightarrow> map_ok (\<lambda>(st', out). (st', Some out))
                       (insert_episode E (b_space b) (b_writer b) ne st)) = Inr (mid, ep)"
    and mems: "insert_memories E (b_space b) (b_writer b) (map_option fst ep) nms mid
      = Inr (st', outs)"
    by (auto simp: insert_batch_txn_def)
  have mid: "store_ok mid \<and> grows st mid \<and> pred_option (\<lambda>e. is_ulid (fst e)) ep"
    using ep insert_episode_ok [OF _ assms(2,3,5)] assms(3)
    by (auto split: option.splits)
  then have "pred_option is_ulid (map_option fst ep)" by (cases ep) auto
  moreover have "known mid nms"
    by (rule known_grows [OF assms(6)]) (use mid in simp)
  ultimately show ?thesis
    using insert_memories_ok [OF mems assms(2) _ assms(4,5)] mid by (auto intro: grows_trans)
qed

lemma existing_memories_iff:
  "i \<in> set ids \<Longrightarrow>
     memory_id_str i \<in> set (existing_memories st space ids) \<longleftrightarrow>
     (\<exists>r \<in> set (st_memories st). m_id r = memory_id_str i \<and> m_space r = space_as_str space)"
  unfolding existing_memories_def set_map set_filter image_iff by force

lemma ensure_memories_exist_Inr:
  "ensure_memories_exist st space ids = Inr u \<longleftrightarrow>
     (\<forall>i \<in> set ids. \<exists>r \<in> set (st_memories st). m_id r = memory_id_str i \<and> m_space r = space_as_str space)"
proof (cases "find (\<lambda>i. memory_id_str i \<notin> set (existing_memories st space ids)) ids")
  case None
  then have "\<forall>i \<in> set ids. memory_id_str i \<in> set (existing_memories st space ids)"
    by (auto simp: find_None_iff)
  then show ?thesis
    by (simp add: ensure_memories_exist_def None existing_memories_iff)
next
  case (Some i)
  then have "i \<in> set ids" "memory_id_str i \<notin> set (existing_memories st space ids)"
    by (auto simp: find_Some_iff)
  with existing_memories_iff show ?thesis
    by (fastforce simp: ensure_memories_exist_def Some)
qed

lemma drop_closed_nm_ok: "nm_ok nm \<Longrightarrow> nm_ok (drop_closed cs nm)"
  by (auto simp: nm_ok_def drop_closed_def list_all_iff)

lemma dropped_known:
  assumes "ensure_memories_exist st space (concat (map nm_supersedes nms)) = Inr u" and "grows st st'"
  shows "known st' (map (drop_closed cs) nms)"
proof (rule known_grows [OF _ assms(2)])
  show "known st (map (drop_closed cs) nms)"
    unfolding known_def
  proof (intro ballI subsetI)
    fix nm x
    assume "nm \<in> set (map (drop_closed cs) nms)" "x \<in> memory_id_str ` set (nm_supersedes nm)"
    then have "\<exists>i. x = memory_id_str i \<and> i \<in> set (concat (map nm_supersedes nms))"
      unfolding drop_closed_def by (auto, blast)
    then obtain r where "r \<in> set (st_memories st)" "m_id r = x"
      using assms(1) unfolding ensure_memories_exist_Inr by blast
    then show "x \<in> m_id ` set (st_memories st)" by blast
  qed
qed

lemma insert_batch_once_ok:
  assumes once: "insert_batch_once E w st b = (res, st')" and "engine_ok E" and "store_ok st"
    and "batch_ok b" and "world_ok w"
  shows "store_ok st' \<and> grows st st'"
proof -
  let ?targets = "concat (map nm_supersedes (b_memories b))"
  let ?st = "fst (w st)"
  have w: "store_ok ?st \<and> grows st ?st" using assms(3,5) by (simp add: world_ok_def)
  consider "st' = st" | "st' = ?st"
    | cs ep outs where "ensure_memories_exist st (b_space b) ?targets = Inr ()"
      "insert_batch_txn E b (map (drop_closed cs) (b_memories b)) ?st = Inr (st', ep, outs)"
    using once
    by (auto simp: insert_batch_once_def Let_def split: sum.splits prod.splits option.splits)
  then show ?thesis
  proof cases
    case 3
    have "known ?st (map (drop_closed cs) (b_memories b))"
      by (rule dropped_known [OF 3(1)]) (use w in simp)
    moreover have "list_all nm_ok (map (drop_closed cs) (b_memories b))"
      using assms(4) by (auto simp: batch_ok_def list_all_iff drop_closed_nm_ok)
    ultimately have "store_ok st' \<and> grows ?st st'"
      using insert_batch_txn_ok [OF 3(2) assms(2)] w assms(4) by (auto simp: batch_ok_def)
    with w show ?thesis by (auto intro: grows_trans)
  qed (use w assms(3) in auto)
qed

lemma insert_batch_loop_ok:
  assumes "insert_batch_loop E worlds n st b = (res, st')" and "engine_ok E" and "store_ok st"
    and "batch_ok b" and "\<And>k. world_ok (worlds k)"
  shows "store_ok st' \<and> grows st st'"
  using assms(1,3)
proof (induction "2 - n" arbitrary: n st)
  case (0 n st)
  obtain r mid where once: "insert_batch_once E (worlds n) st b = (r, mid)" by fastforce
  have "st' = mid"
    using 0 once by (simp add: insert_batch_loop.simps split: sum.splits store_error.splits)
  with insert_batch_once_ok [OF once assms(2) 0(3) assms(4,5)] show ?case by simp
next
  case (Suc k n st)
  obtain r mid where once: "insert_batch_once E (worlds n) st b = (r, mid)" by fastforce
  note mid = insert_batch_once_ok [OF once assms(2) Suc.prems(2) assms(4,5)]
  consider "st' = mid" | "insert_batch_loop E worlds (Suc n) mid b = (res, st')"
    using Suc.prems(1) once
    by (auto simp: insert_batch_loop.simps [of E worlds n]
        split: sum.splits store_error.splits if_splits)
  then show ?case
  proof cases
    case 2
    with Suc.hyps(1) [of "Suc n" mid] Suc.hyps(2) mid show ?thesis
      by (auto intro: grows_trans)
  qed (use mid in simp)
qed

lemma insert_batch_ok:
  assumes "insert_batch E worlds st b = (res, st')" and "engine_ok E" and "store_ok st"
    and "batch_ok b" and "\<And>k. world_ok (worlds k)"
  shows "store_ok st' \<and> grows st st'"
  using insert_batch_loop_ok [OF assms(1) [unfolded insert_batch_def]] assms(2-5) by blast

section \<open>The other writes\<close>

lemma ensure_space_ok [simp]:
  "store_ok (ensure_space s st) = store_ok st" "grows st (ensure_space s st)"
  by (simp_all add: ensure_space_def store_ok_def ids_ok_def grows_def)

text \<open>An update of rows that a write sends by itself, outside a batch.\<close>

lemma store_update_ok:
  assumes "update_where P f ids (st_memories st) = Inr (rows, changed)" and "store_ok st"
    and "\<And>x. close_ok x \<Longrightarrow> P x \<Longrightarrow>
      m_superseded_by (f x) = m_superseded_by x \<and> close_ok (f x) \<and> keeps x (f x)"
    and "\<And>x. m_id (f x) = m_id x" and "\<And>x. readable x \<Longrightarrow> readable (f x)"
  shows "store_ok (st\<lparr>st_memories := rows\<rparr>) \<and> grows st (st\<lparr>st_memories := rows\<rparr>)"
proof -
  have ok: "rows_ok (st_memories st)" "\<forall>x \<in> set (st_memories st). readable x"
    using assms(2) by (simp_all add: store_ok_def list_all_iff)
  have r: "rows_ok rows \<and> evolves (st_memories st) rows \<and> map m_id rows = map m_id (st_memories st)"
    by (rule update_where_ok [OF assms(1) ok(1) assms(3,4)])
  have "\<forall>x \<in> set rows. readable x"
    by (rule update_where_all [OF assms(1) ok(2)]) (use assms(4,5) in simp_all)
  with r store_ok_rows [OF assms(2), of rows] show ?thesis
    by (simp add: grows_def)
qed

lemma forget_row_closes:
  "close_ok x \<Longrightarrow> live x \<Longrightarrow> m_superseded_by (forget_row E x) = m_superseded_by x
     \<and> close_ok (forget_row E x) \<and> keeps x (forget_row E x)"
  by (simp add: close_ok_def live_def forget_row_def keeps_def superseded_str_def lit_inject)

lemma expire_row_closes:
  "close_ok x \<Longrightarrow> live x \<Longrightarrow> m_superseded_by (expire_row E x) = m_superseded_by x
     \<and> close_ok (expire_row E x) \<and> keeps x (expire_row E x)"
  by (simp add: close_ok_def live_def expire_row_def keeps_def superseded_str_def lit_inject)

lemma row_ids [simp]:
  "m_id (forget_row E x) = m_id x" "m_id (expire_row E x) = m_id x" "m_id (reinforce_row E x) = m_id x"
  by (simp_all add: forget_row_def expire_row_def reinforce_row_def)

lemma reinforce_row_closes:
  "close_ok x \<Longrightarrow> m_superseded_by (reinforce_row E x) = m_superseded_by x
     \<and> close_ok (reinforce_row E x) \<and> keeps x (reinforce_row E x)"
  by (simp add: close_ok_def reinforce_row_def keeps_def)

lemma forget_soft_ok:
  assumes "forget_soft E spaces mems st = Inr (st', gone)" and "store_ok st"
  shows "store_ok st' \<and> grows st st'"
proof -
  from assms(1) obtain rows where
    "update_where (\<lambda>r. m_space r \<in> set spaces \<and> live r) (forget_row E) mems (st_memories st)
      = Inr (rows, gone)" and "st' = st\<lparr>st_memories := rows\<rparr>"
    by (auto simp: forget_soft_def)
  with store_update_ok [OF this(1) assms(2)] forget_row_closes readable_forget show ?thesis
    by auto
qed

lemma prune_expired_ok:
  assumes "prune_expired E st = (res, st')" and "store_ok st"
  shows "store_ok st' \<and> grows st st'"
proof (cases "st' = st")
  case False
  with assms(1) obtain h rows changed where
    "update_where (prune_due E h) (expire_row E) (map m_id (st_memories st)) (st_memories st)
      = Inr (rows, changed)" and "st' = st\<lparr>st_memories := rows\<rparr>"
    by (auto simp: prune_expired_def split: option.splits sum.splits)
  with store_update_ok [OF this(1) assms(2)] expire_row_closes readable_expire show ?thesis
    by (auto simp: prune_due_def)
qed (use assms(2) in simp)

lemma reinforce_ok:
  assumes "reinforce E ids st = (res, st')" and "store_ok st"
  shows "store_ok st' \<and> grows st st'"
proof (cases "st' = st")
  case False
  with assms(1) obtain rows changed where
    "update_where (\<lambda>_. True) (reinforce_row E) (map memory_id_str ids) (st_memories st)
      = Inr (rows, changed)" and "st' = st\<lparr>st_memories := rows\<rparr>"
    by (auto simp: reinforce_def split: sum.splits if_splits)
  with store_update_ok [OF this(1) assms(2)] reinforce_row_closes readable_reinforce show ?thesis
    by auto
qed (use assms(2) in simp)

text \<open>A purge deletes; what it leaves is in order.\<close>

lemma forget_purge_ok:
  assumes "forget_purge spaces mems eps st = (st', out)" and "store_ok st"
  shows "store_ok st'"
proof -
  obtain P Q R where st': "st' = st\<lparr>st_chunks := filter P (st_chunks st),
      st_episodes := filter Q (st_episodes st), st_memories := filter R (st_memories st)\<rparr>"
    using assms(1) by (auto simp: forget_purge_def Let_def)
  show ?thesis
    using assms(2) rows_ok_filter [of "st_memories st" R]
    unfolding st' store_ok_def ids_ok_def
    by (simp add: distinct_map_filter list_all_iff)
qed

lemma forget_ok:
  assumes "forget E request st = (res, st')" and "store_ok st"
  shows "store_ok st'"
proof (cases "f_purge request")
  case True
  then obtain out where "forget_purge (map space_as_str (f_spaces request))
      (map memory_id_str (f_memories request)) (map episode_id_str (f_episodes request)) st = (st', out)"
    using assms(1) by (auto simp: forget_def Let_def split: prod.splits)
  with assms(2) show ?thesis by (rule forget_purge_ok [rotated])
next
  case False
  with assms forget_soft_ok show ?thesis
    by (auto simp: forget_def Let_def split: sum.splits)
qed

end
