(* ===== verification/StoreSteps.thy ===== *)
theory StoreSteps
  imports StoreInv
begin

text \<open>
  The writes as a step relation on stores, the contract every step keeps stated once as a locale
  and interpreted on the relation, and what each write promises its caller: the whole batch or
  nothing, an outcome that names rows holding the claims, closes that land, a bounded retry.
\<close>

section \<open>The step relation\<close>

text \<open>
  One write of one session, at some instant. \<open>purge\<close> says whether the run may contain hard deletes.
  \<open>supersede\<close> is not a step: no caller of the program uses it, and it does not check its successor
  (see \<open>supersede_self\<close>).
\<close>

inductive store_step :: "engine \<Rightarrow> bool \<Rightarrow> store \<Rightarrow> store \<Rightarrow> bool" for E purge where
  step_space: "store_step E purge st (ensure_space s st)"
| step_batch: "insert_batch (E\<lparr>en_now := tm\<rparr>) worlds st b = (res, st') \<Longrightarrow> batch_ok b \<Longrightarrow>
    (\<And>k. world_ok (worlds k)) \<Longrightarrow> store_step E purge st st'"
| step_forget: "forget (E\<lparr>en_now := tm\<rparr>) request st = (res', st') \<Longrightarrow>
    (f_purge request \<longrightarrow> purge) \<Longrightarrow> store_step E purge st st'"
| step_prune: "prune_expired (E\<lparr>en_now := tm\<rparr>) st = (res'', st') \<Longrightarrow> store_step E purge st st'"
| step_reinforce: "reinforce (E\<lparr>en_now := tm\<rparr>) ids st = (res''', st') \<Longrightarrow> store_step E purge st st'"

inductive_cases store_stepE: "store_step E purge st st'"

definition reachable :: "engine \<Rightarrow> store \<Rightarrow> bool" where
  "reachable E st \<longleftrightarrow> (store_step E True)\<^sup>*\<^sup>* empty_store st"

lemma engine_ok_now [simp]: "engine_ok (E\<lparr>en_now := tm\<rparr>) = engine_ok E"
  by (simp add: engine_ok_def)

lemma empty_store_ok [simp]: "store_ok empty_store"
  by (simp add: store_ok_def rows_ok_def ids_ok_def empty_store_def successor_rel_def acyclic_def)

lemma store_step_ok:
  assumes "store_step E purge st st'" and "engine_ok E" and "store_ok st"
  shows "store_ok st' \<and> (purge \<or> grows st st')"
  using assms(1)
proof (rule store_stepE)
  fix s
  assume "st' = ensure_space s st"
  with assms(3) show ?thesis by simp
next
  fix tm worlds b res
  assume "insert_batch (E\<lparr>en_now := tm\<rparr>) worlds st b = (res, st')" "batch_ok b"
    "\<And>k. world_ok (worlds k)"
  with insert_batch_ok [OF this(1) _ assms(3) this(2,3)] assms(2) show ?thesis by simp
next
  fix tm request res'
  assume f: "forget (E\<lparr>en_now := tm\<rparr>) request st = (res', st')" "f_purge request \<longrightarrow> purge"
  have "grows st st'" if "\<not> purge"
    using f that forget_soft_ok [OF _ assms(3)]
    by (auto simp: forget_def Let_def split: sum.splits)
  with forget_ok [OF f(1) assms(3)] show ?thesis by blast
next
  fix tm res''
  assume "prune_expired (E\<lparr>en_now := tm\<rparr>) st = (res'', st')"
  with prune_expired_ok [OF this assms(3)] show ?thesis by simp
next
  fix tm ids res'''
  assume "reinforce (E\<lparr>en_now := tm\<rparr>) ids st = (res''', st')"
  with reinforce_ok [OF this assms(3)] show ?thesis by simp
qed

section \<open>The contract of a run\<close>

locale kept =
  fixes step :: "'s \<Rightarrow> 's \<Rightarrow> bool"
    and inv :: "'s \<Rightarrow> bool"
  assumes step_keeps: "step a b \<Longrightarrow> inv a \<Longrightarrow> inv b"
begin

lemma run_keeps: "step\<^sup>*\<^sup>* a b \<Longrightarrow> inv a \<Longrightarrow> inv b"
  by (induction rule: rtranclp_induct) (auto intro: step_keeps)

end

locale recorded = kept +
  fixes later :: "'a \<Rightarrow> 'a \<Rightarrow> bool"
  assumes later_refl: "later a a"
    and later_trans: "later a b \<Longrightarrow> later b c \<Longrightarrow> later a c"
    and step_later: "step a b \<Longrightarrow> inv a \<Longrightarrow> later a b"
begin

lemma run_later: "step\<^sup>*\<^sup>* a b \<Longrightarrow> inv a \<Longrightarrow> later a b"
proof (induction rule: rtranclp_induct)
  case base
  show ?case by (rule later_refl)
next
  case (step b c)
  from step run_keeps have "inv b" by blast
  with step step_later later_trans show ?case by blast
qed

end

interpretation writes: kept "store_step E True" "\<lambda>st. engine_ok E \<and> store_ok st" for E
  by unfold_locales (use store_step_ok in blast)

interpretation history: recorded "store_step E False" "\<lambda>st. engine_ok E \<and> store_ok st" grows for E
  by unfold_locales (use store_step_ok grows_trans grows_refl in blast)+

section \<open>Closes that land\<close>

definition superseded_in :: "store \<Rightarrow> str \<Rightarrow> str \<Rightarrow> bool" where
  "superseded_in st i n \<longleftrightarrow>
     (\<exists>r \<in> set (st_memories st). m_id r = i \<and> \<not> live r \<and> m_superseded_by r = Some n)"

lemma superseded_in_grows:
  assumes "superseded_in st i n" and "grows st st'"
  shows "superseded_in st' i n"
proof -
  from assms(1) obtain r where r: "r \<in> set (st_memories st)" "m_id r = i" "\<not> live r"
    "m_superseded_by r = Some n" by (auto simp: superseded_in_def)
  with assms(2) obtain y where "y \<in> set (st_memories st')" "keeps r y"
    unfolding grows_def evolves_def by blast
  with r show ?thesis unfolding superseded_in_def keeps_def live_def by (metis (no_types))
qed

text \<open>An update whose count matches its list changed every row of the list.\<close>

lemma supersede_targets_closed:
  assumes "supersede_targets n tm named targets rows = Inr rows'" and "distinct (map m_id rows)"
    and "i \<in> set targets"
  shows "\<exists>r \<in> set rows'. m_id r = i \<and> m_superseded_by r = Some n \<and> m_invalid_at r = Some tm
    \<and> m_invalid_reason r = Some superseded_str"
proof -
  from assms(1) obtain changed where
    upd: "update_where live (close_row n tm) targets rows = Inr (rows', changed)"
    and len: "length changed = length targets"
    by (auto simp: supersede_targets_def split: if_splits)
  have "set changed = set targets"
    using upd len
  proof (induction targets arbitrary: rows changed)
    case (Cons a targets)
    from Cons.prems(1) consider "update_where live (close_row n tm) targets rows = Inr (rows', changed)"
      | mid ch where "update_where live (close_row n tm) targets mid = Inr (rows', ch)"
        "changed = a # ch"
      by (auto split: option.splits if_splits)
    then show ?case
    proof cases
      case 1
      from update_where_length [OF this] Cons.prems(2) show ?thesis by simp
    next
      case 2
      with Cons.IH [OF 2(1)] Cons.prems(2) show ?thesis by simp
    qed
  qed simp
  moreover note update_where_map [OF upd assms(2)]
  moreover have "\<not> live (close_row n tm x)" for x by (simp add: live_def)
  ultimately have named: "i \<in> m_id ` {x \<in> set rows. live x \<and> m_id x \<in> set targets}"
    and rows': "rows' = map (\<lambda>x. if live x \<and> m_id x \<in> set targets then close_row n tm x else x) rows"
    using assms(3) by simp_all
  from named obtain r where "r \<in> set rows" "live r" "m_id r = i" by auto
  with rows' have "close_row n tm r \<in> set rows'" using assms(3) by force
  with \<open>m_id r = i\<close> show ?thesis by (intro bexI [of _ "close_row n tm r"]) auto
qed

lemma insert_memory_closes:
  assumes "insert_memory E space w ep nm st = Inr (st', out)" and "store_ok st"
    and "old \<in> set (nm_supersedes nm)" and "memory_id_str old \<noteq> fst out"
  shows "superseded_in st' (memory_id_str old) (fst out)"
proof -
  have dist: "distinct (map m_id (st_memories st))" using assms(2) by (simp add: store_ok_def rows_ok_def)
  obtain tm named targets rows rows' where sup: "supersede_targets (fst out) tm named targets rows = Inr rows'"
    and "memory_id_str old \<in> set targets" "st_memories st' = rows'" "distinct (map m_id rows)"
  proof (cases "live_duplicate st (space_as_str space) (en_hash E (nm_content nm))")
    case (Some dup)
    with assms(1,3) have "fst out = m_id dup" by (auto simp: insert_memory_def Let_def split: if_splits)
    with Some assms that dist show thesis
      by (auto simp: insert_memory_def Let_def split: if_splits)
  next
    case None
    with assms(1,3) obtain rows rows' where
      "create_row (memory_row E space w ep nm (en_ulid E (st_minted st))) (st_memories st) = Inr rows"
      and "supersede_targets (en_ulid E (st_minted st))
        (m_valid_from (memory_row E space w ep nm (en_ulid E (st_minted st))))
        (map memory_id_str (nm_supersedes nm)) (map memory_id_str (nm_supersedes nm)) rows = Inr rows'"
      and "st_memories st' = rows'" and "fst out = en_ulid E (st_minted st)"
      by (auto simp: insert_memory_def mint_def Let_def split: if_splits)
    moreover from this(1) dist have "distinct (map m_id rows)"
      by (auto simp: create_row_Inr)
    ultimately show thesis using that assms(3) by auto
  qed
  with supersede_targets_closed [OF sup] show ?thesis
    by (fastforce simp: superseded_in_def live_def)
qed

lemma insert_memory_new:
  "insert_memory E space w ep nm st = Inr (st', out) \<Longrightarrow> snd out \<Longrightarrow>
   fst out \<notin> m_id ` set (st_memories st)"
  by (auto simp: insert_memory_def Let_def mint_def create_row_Inr memory_row_def
      split: option.splits if_splits)

text \<open>What an outcome says of its memory's predecessors: all closed, but for the memory itself.\<close>

definition settles :: "store \<Rightarrow> new_memory \<Rightarrow> str \<times> bool \<Rightarrow> bool" where
  "settles st nm out \<longleftrightarrow>
     (\<forall>old \<in> set (nm_supersedes nm). memory_id_str old \<noteq> fst out \<longrightarrow>
        superseded_in st (memory_id_str old) (fst out)) \<and>
     (snd out \<longrightarrow> fst out \<notin> memory_id_str ` set (nm_supersedes nm))"

lemma insert_memories_closes:
  assumes "insert_memories E space w ep nms st = Inr (st', outs)" and "engine_ok E"
    and "store_ok st" and "list_all nm_ok nms" and "space_ok space" and "pred_option is_ulid ep"
    and "known st nms"
  shows "list_all2 (settles st') nms outs"
  using assms(1,3,4,7)
proof (induction nms arbitrary: st outs)
  case (Cons nm nms)
  from Cons.prems(1) obtain mid out outs' where
    one: "insert_memory E space w ep nm st = Inr (mid, out)"
    and rest: "insert_memories E space w ep nms mid = Inr (st', outs')" and outs: "outs = out # outs'"
    by auto
  from insert_memory_ok [OF one assms(2) Cons.prems(2) _ assms(5,6)] Cons.prems(3,4)
  have mid: "store_ok mid" "grows st mid" by auto
  have kn: "known mid nms" by (rule known_grows [OF _ mid(2)]) (use Cons.prems(4) in simp)
  have nms: "list_all nm_ok nms" using Cons.prems(3) by simp
  have "grows mid st'" using insert_memories_ok [OF rest assms(2) mid(1) nms assms(5,6) kn] by simp
  with insert_memory_closes [OF one Cons.prems(2)] have "\<forall>old \<in> set (nm_supersedes nm).
      memory_id_str old \<noteq> fst out \<longrightarrow> superseded_in st' (memory_id_str old) (fst out)"
    by (blast intro: superseded_in_grows)
  moreover have "snd out \<longrightarrow> fst out \<notin> memory_id_str ` set (nm_supersedes nm)"
    using insert_memory_new [OF one] Cons.prems(4) by auto
  ultimately have "settles st' nm out" by (simp add: settles_def)
  with Cons.IH [OF rest mid(1) nms kn] outs show ?case by simp
qed auto

lemma insert_batch_txn_closes:
  assumes "insert_batch_txn E b nms st = Inr (st', ep, outs)" and "engine_ok E"
    and "store_ok st" and "list_all nm_ok nms" and "space_ok (b_space b)" and "known st nms"
  shows "list_all2 (settles st') nms outs"
proof -
  from assms(1) obtain mid where
    ep: "(case b_episode b of
          None \<Rightarrow> Inr (st, None)
        | Some ne \<Rightarrow> map_ok (\<lambda>(st', out). (st', Some out))
                       (insert_episode E (b_space b) (b_writer b) ne st)) = Inr (mid, ep)"
    and mems: "insert_memories E (b_space b) (b_writer b) (map_option fst ep) nms mid
      = Inr (st', outs)"
    by (auto simp: insert_batch_txn_def)
  have mid: "store_ok mid \<and> grows st mid \<and> pred_option (\<lambda>e. is_ulid (fst e)) ep"
    using ep insert_episode_ok [OF _ assms(2,3,5)] assms(3)
    by (auto split: option.splits)
  then have "pred_option is_ulid (map_option fst ep)" by (cases ep) auto
  moreover have "known mid nms"
    by (rule known_grows [OF assms(6)]) (use mid in simp)
  ultimately show ?thesis
    using insert_memories_closes [OF mems assms(2) _ assms(4,5)] mid by blast
qed

section \<open>What a batch reports\<close>

lemma written_row_ok:
  "is_ulid (fst out) \<Longrightarrow> written_row memory_id_new out
     = Inr (if snd out then Created (MemoryId (fst out)) else Duplicate (MemoryId (fst out)))"
  by (simp add: written_row_def map_ok_def map_err_def record_id_new_def memory_id_new_def)

lemma written_episode_ok:
  "is_ulid (fst out) \<Longrightarrow> \<exists>x. written_row episode_id_new out = Inr x"
  by (simp add: written_row_def map_ok_def map_err_def record_id_new_def episode_id_new_def)

definition written_of :: "str \<times> bool \<Rightarrow> memory_id written" where
  "written_of out =
     (if snd out then Created (MemoryId (fst out)) else Duplicate (MemoryId (fst out)))"

lemma written_of_id [simp]: "memory_id_str (written_id (written_of out)) = fst out"
  by (simp add: written_of_def)

text \<open>A report on rows with well-formed ids never fails, so an error always means no commit.\<close>

lemma batch_report_Inr:
  assumes "length outs = length nms" and "list_all (is_ulid \<circ> fst) outs"
    and "pred_option (\<lambda>e. is_ulid (fst e)) ep"
  shows "\<exists>out. batch_report nms cs ep outs = Inr out \<and> bo_memories out = map written_of outs
    \<and> bo_superseded out = superseded_by_batch nms (map written_of outs) \<and> bo_already_closed out = cs"
proof -
  have "collect_results (written_row memory_id_new) outs = Inr (map written_of outs)"
    by (rule collect_results_all)
      (use assms(2) in \<open>auto simp: list_all_iff written_row_ok written_of_def\<close>)
  moreover obtain x where "transpose_result (written_row episode_id_new) ep = Inr x"
    using assms(3) written_episode_ok by (cases ep) (auto, blast)
  ultimately show ?thesis using assms(1) by (simp add: batch_report_def)
qed

lemma superseded_by_batch_closed:
  assumes "list_all2 (settles st) nms outs"
  shows "list_all (\<lambda>old. \<exists>n. superseded_in st (memory_id_str old) n)
    (superseded_by_batch nms (map written_of outs))"
  using assms
proof (induction nms outs rule: list_all2_induct)
  case (Cons nm nms out outs)
  have "\<exists>n. superseded_in st (memory_id_str old) n"
    if "old \<in> set (nm_supersedes nm)"
      and "case written_of out of Created _ \<Rightarrow> True | Duplicate dup \<Rightarrow> old \<noteq> dup" for old
  proof -
    obtain s where s: "old = MemoryId s" by (cases old)
    have "memory_id_str old \<in> memory_id_str ` set (nm_supersedes nm)" using that(1) by blast
    then have "memory_id_str old \<noteq> fst out"
    proof (cases "snd out")
      case True
      with Cons.hyps(1) have "fst out \<notin> memory_id_str ` set (nm_supersedes nm)"
        by (simp add: settles_def)
      with \<open>memory_id_str old \<in> memory_id_str ` set (nm_supersedes nm)\<close> show ?thesis by metis
    next
      case False
      with that(2) show ?thesis by (auto simp: written_of_def s)
    qed
    with that(1) Cons.hyps(1) show ?thesis by (auto simp: settles_def)
  qed
  with Cons.IH show ?case by (auto simp: superseded_by_batch_def list_all_iff)
qed (simp add: superseded_by_batch_def)

text \<open>One attempt, as its caller sees it.\<close>

definition reported :: "engine \<Rightarrow> store \<Rightarrow> batch \<Rightarrow> batch_outcome \<Rightarrow> bool" where
  "reported E st b out \<longleftrightarrow>
     list_all2 (\<lambda>nm w. holds_claim st (space_as_str (b_space b)) (en_hash E (nm_content nm))
        (memory_id_str (written_id w))) (b_memories b) (bo_memories out) \<and>
     list_all (\<lambda>old. \<exists>n. superseded_in st (memory_id_str old) n) (bo_superseded out)"

lemma drop_closed_Nil [simp]: "drop_closed [] nm = nm"
  by (simp add: drop_closed_def)

lemma drop_closed_content [simp]: "nm_content (drop_closed cs nm) = nm_content nm"
  by (simp add: drop_closed_def)

lemma insert_batch_once_cases:
  assumes once: "insert_batch_once E w st b = (res, st')" and "engine_ok E" and "store_ok st"
    and "batch_ok b" and "world_ok w"
  shows "(case res of Inl _ \<Rightarrow> st' = st \<or> st' = fst (w st) | Inr out \<Rightarrow> reported E st' b out)"
proof -
  let ?st = "fst (w st)"
  have w: "store_ok ?st \<and> grows st ?st" using assms(3,5) by (simp add: world_ok_def)
  consider e where "res = Inl e" "st' = st \<or> st' = ?st"
    | cs ep outs where
      "ensure_memories_exist st (b_space b) (concat (map nm_supersedes (b_memories b))) = Inr ()"
      "insert_batch_txn E b (map (drop_closed cs) (b_memories b)) ?st = Inr (st', ep, outs)"
      "res = batch_report (map (drop_closed cs) (b_memories b)) cs ep outs"
    using once
    by (auto simp: insert_batch_once_def Let_def split: sum.splits prod.splits option.splits)
  then show ?thesis
  proof cases
    case 2
    let ?nms = "map (drop_closed cs) (b_memories b)"
    have kn: "known ?st ?nms" by (rule dropped_known [OF 2(1)]) (use w in simp)
    have nms: "list_all nm_ok ?nms"
      using assms(4) by (auto simp: batch_ok_def list_all_iff drop_closed_nm_ok)
    have sp: "space_ok (b_space b)" using assms(4) by (simp add: batch_ok_def)
    from insert_batch_txn_ok [OF 2(2) assms(2) _ nms sp kn] w
    have t: "pred_option (\<lambda>e. is_ulid (fst e)) ep" "list_all2 (\<lambda>nm out.
      holds_claim st' (space_as_str (b_space b)) (en_hash E (nm_content nm)) (fst out)
      \<and> is_ulid (fst out)) ?nms outs" by auto
    have s: "list_all2 (settles st') ?nms outs"
      by (rule insert_batch_txn_closes [OF 2(2) assms(2) _ nms sp kn]) (use w in simp)
    have "length outs = length ?nms" using list_all2_lengthD [OF t(2)] by simp
    moreover have "list_all (is_ulid \<circ> fst) outs"
      using t(2) by (auto simp: list_all2_conv_all_nth list_all_length)
    ultimately obtain out where out: "res = Inr out" "bo_memories out = map written_of outs"
      "bo_superseded out = superseded_by_batch ?nms (map written_of outs)"
      using batch_report_Inr [OF _ _ t(1)] 2(3) by metis
    have "list_all2 (\<lambda>nm w. holds_claim st' (space_as_str (b_space b)) (en_hash E (nm_content nm))
        (memory_id_str (written_id w))) (b_memories b) (bo_memories out)"
      using t(2) by (simp add: out(2) list_all2_conv_all_nth)
    with superseded_by_batch_closed [OF s] out show ?thesis by (simp add: reported_def)
  qed auto
qed

lemma quiet_fst: "fst (quiet st) = st"
  by (simp add: quiet_def)

lemma insert_batch_loop_cases:
  assumes "insert_batch_loop E worlds n st b = (res, st')" and "engine_ok E" and "store_ok st"
    and "batch_ok b" and "\<And>k. world_ok (worlds k)"
  shows "(case res of Inl _ \<Rightarrow> (\<forall>k. worlds k = quiet) \<longrightarrow> st' = st | Inr out \<Rightarrow> reported E st' b out)"
  using assms(1,3)
proof (induction "2 - n" arbitrary: n st)
  case (0 n st)
  obtain r mid where once: "insert_batch_once E (worlds n) st b = (r, mid)" by fastforce
  have "(res, st') = (r, mid)"
    using 0 once by (simp add: insert_batch_loop.simps split: sum.splits store_error.splits)
  with insert_batch_once_cases [OF once assms(2) 0(3) assms(4,5)] show ?case
    by (cases r) (simp_all, metis quiet_fst)
next
  case (Suc k n st)
  obtain r mid where once: "insert_batch_once E (worlds n) st b = (r, mid)" by fastforce
  note mid = insert_batch_once_ok [OF once assms(2) Suc.prems(2) assms(4,5)]
  note cases' = insert_batch_once_cases [OF once assms(2) Suc.prems(2) assms(4,5)]
  consider "(res, st') = (r, mid)"
    | e where "r = Inl (Db e)" "insert_batch_loop E worlds (Suc n) mid b = (res, st')"
  proof (cases "\<exists>e. r = Inl (Db e) \<and> insert_batch_loop E worlds (Suc n) mid b = (res, st')")
    case False
    then have "(res, st') = (r, mid)"
      using Suc.prems(1) [unfolded insert_batch_loop.simps [of E worlds n st b] once]
      by (cases r) (simp_all split: store_error.splits if_splits)
    then show ?thesis by (rule that(1))
  qed (use that(2) in blast)
  then show ?case
  proof cases
    case 1
    with cases' show ?thesis by (cases r) (simp_all, metis quiet_fst)
  next
    case 2
    have same: "(\<forall>k. worlds k = quiet) \<longrightarrow> mid = st" using cases' 2(1) by simp (metis quiet_fst)
    have "k = 2 - Suc n" using Suc.hyps(2) by simp
    from Suc.hyps(1) [OF this 2(2)] mid same show ?thesis by (cases res) auto
  qed
qed

lemma insert_batch_worlds:
  "insert_batch E (\<lambda>k. if k < 3 then worlds k else other) st b = insert_batch E worlds st b"
proof -
  have loop: "insert_batch_loop E v n st b = (case insert_batch_once E (v n) st b of
        (Inl (Db e), st') \<Rightarrow>
          if n < 2 \<and> is_write_race e then insert_batch_loop E v (Suc n) st' b else (Inl (Db e), st')
      | outcome \<Rightarrow> outcome)" for v n st
    by (rule insert_batch_loop.simps)
  have "insert_batch_loop E (\<lambda>k. if k < 3 then worlds k else other) 2 st b
      = insert_batch_loop E worlds 2 st b" for st
    by (subst (1 2) loop) (simp split: prod.splits sum.splits store_error.splits)
  then have "insert_batch_loop E (\<lambda>k. if k < 3 then worlds k else other) 1 st b
      = insert_batch_loop E worlds 1 st b" for st
    by (subst (1 2) loop) (simp add: numeral_2_eq_2 split: prod.splits sum.splits store_error.splits)
  then have "insert_batch_loop E (\<lambda>k. if k < 3 then worlds k else other) 0 st b
      = insert_batch_loop E worlds 0 st b" for st
    by (subst (1 2) loop) (simp split: prod.splits sum.splits store_error.splits)
  then show ?thesis by (simp add: insert_batch_def)
qed

section \<open>A small store\<close>

text \<open>One memory, then a second that supersedes it: the store the witnesses run on.\<close>

definition ulid_a :: str where "ulid_a = lit ''01ARZ3NDEKTSV4RRFFQ69G5FAV''"
definition ulid_b :: str where "ulid_b = lit ''01BX5ZZKBKACTAV9WEVGEMMVRZ''"
definition ulid_c :: str where "ulid_c = lit ''01CRZ3NDEKTSV4RRFFQ69G5FAV''"
definition ulid_d :: str where "ulid_d = lit ''01DRZ3NDEKTSV4RRFFQ69G5FAV''"

definition demo_engine :: engine where
  "demo_engine = \<lparr>en_now = 5, en_ulid = (\<lambda>k. [ulid_a, ulid_b, ulid_c, ulid_d] ! min k 3),
     en_datetime = (\<lambda>t. t), en_hash = (\<lambda>s. s)\<rparr>"

definition demo_space :: space_name where "demo_space = SpaceName (lit ''user'')"

definition demo_batch :: "new_memory list \<Rightarrow> batch" where
  "demo_batch ms =
     \<lparr>b_space = demo_space, b_episode = None, b_memories = ms, b_writer = default_writer\<rparr>"

definition demo_old :: new_memory where "demo_old = new_memory_new Fact (lit ''old'')"

definition demo_new :: new_memory where
  "demo_new = (new_memory_new Fact (lit ''new''))\<lparr>nm_supersedes := [MemoryId ulid_a]\<rparr>"

definition demo_first :: store where
  "demo_first = empty_store\<lparr>st_memories :=
     [memory_row demo_engine demo_space default_writer None demo_old ulid_a], st_minted := 1\<rparr>"

definition demo_second :: batch where "demo_second = demo_batch [demo_new]"

definition demo_store :: store where
  "demo_store = empty_store\<lparr>st_memories :=
     [close_row ulid_b 5 (memory_row demo_engine demo_space default_writer None demo_old ulid_a),
      memory_row demo_engine demo_space default_writer None demo_new ulid_b], st_minted := 2\<rparr>"

lemma ulids_ok [simp]: "is_ulid ulid_a" "is_ulid ulid_b" "is_ulid ulid_c" "is_ulid ulid_d"
  unfolding ulid_a_def ulid_b_def ulid_c_def ulid_d_def by code_simp+

lemma ulids_distinct: "distinct [ulid_a, ulid_b, ulid_c, ulid_d]"
  by (simp add: ulid_a_def ulid_b_def ulid_c_def ulid_d_def lit_inject)

lemma ulids_neq [simp]:
  "ulid_a \<noteq> ulid_b" "ulid_a \<noteq> ulid_c" "ulid_a \<noteq> ulid_d" "ulid_b \<noteq> ulid_a" "ulid_b \<noteq> ulid_c"
  "ulid_b \<noteq> ulid_d" "ulid_c \<noteq> ulid_a" "ulid_c \<noteq> ulid_b" "ulid_c \<noteq> ulid_d" "ulid_d \<noteq> ulid_a"
  "ulid_d \<noteq> ulid_b" "ulid_d \<noteq> ulid_c"
  using ulids_distinct by auto

lemma demo_engine_simps [simp]:
  "en_ulid demo_engine 0 = ulid_a" "en_ulid demo_engine (Suc 0) = ulid_b"
  "en_ulid demo_engine 2 = ulid_c" "en_ulid demo_engine 3 = ulid_d" "en_now demo_engine = 5"
  "en_hash demo_engine s = s" "en_datetime demo_engine t = t"
  by (simp_all add: demo_engine_def)

lemma demo_engine_ok [simp]: "engine_ok demo_engine"
proof -
  have "min k 3 = 0 \<or> min k 3 = 1 \<or> min k 3 = 2 \<or> min k 3 = 3" for k :: nat by linarith
  then have "is_ulid ([ulid_a, ulid_b, ulid_c, ulid_d] ! min k 3)" for k by (metis nth_Cons_0
        nth_Cons_Suc numeral_2_eq_2 numeral_3_eq_3 One_nat_def ulids_ok)
  then show ?thesis by (simp add: engine_ok_def demo_engine_def)
qed

lemma demo_batch_ok: "batch_ok (demo_batch ms) = list_all nm_ok ms"
proof -
  have "space_ok demo_space" unfolding demo_space_def by code_simp
  then show ?thesis by (simp add: batch_ok_def demo_batch_def)
qed

lemma demo_batches_ok: "batch_ok (demo_batch [demo_old])" "batch_ok demo_second"
  by (simp_all add: demo_second_def demo_batch_ok nm_ok_def demo_old_def demo_new_def
      new_memory_new_def memory_id_ok_def)

lemma demo_row_simps [simp]:
  "m_id (memory_row E s w ep nm i) = i" "live (memory_row E s w ep nm i)"
  "m_space (memory_row E s w ep nm i) = space_as_str s"
  "m_hash (memory_row E s w ep nm i) = en_hash E (nm_content nm)"
  "m_valid_from (memory_row E s w ep nm i) = valid_from_of E nm"
  by (simp_all add: memory_row_def live_def)

lemma demo_contents [simp]:
  "nm_content demo_old = lit ''old''" "nm_content demo_new = lit ''new''"
  "nm_supersedes demo_old = []" "nm_supersedes demo_new = [MemoryId ulid_a]"
  "valid_from_of demo_engine demo_old = 5" "valid_from_of demo_engine demo_new = 5"
  by (simp_all add: demo_old_def demo_new_def new_memory_new_def valid_from_of_def)

lemma demo_first_run:
  "\<exists>out. insert_batch demo_engine (\<lambda>_. quiet) empty_store (demo_batch [demo_old]) = (Inr out, demo_first)"
  by (simp add: insert_batch_def insert_batch_loop.simps insert_batch_once_def demo_batch_def
      ensure_memories_exist_def closed_memories_def quiet_def insert_batch_txn_def
      insert_memory_def live_duplicate_def empty_store_def mint_def create_row_def Let_def
      batch_report_def written_row_ok demo_first_def)

lemma demo_second_run:
  "\<exists>out. insert_batch demo_engine (\<lambda>_. quiet) demo_first demo_second = (Inr out, demo_store)
     \<and> bo_superseded out = [MemoryId ulid_a]"
  by (simp add: insert_batch_def insert_batch_loop.simps insert_batch_once_def demo_batch_def
      ensure_memories_exist_def existing_memories_def closed_memories_def quiet_def
      insert_batch_txn_def insert_memory_def live_duplicate_def empty_store_def
      mint_def create_row_def Let_def mem_key_def supersede_targets_def find_row_def put_row_def
      batch_report_def written_row_ok superseded_by_batch_def demo_first_def demo_second_def
      demo_store_def lit_inject)

lemma demo_reachable: "reachable demo_engine demo_store"
proof -
  have E: "demo_engine\<lparr>en_now := 5\<rparr> = demo_engine" by (simp add: demo_engine_def)
  obtain o1 o2 where runs: "insert_batch demo_engine (\<lambda>_. quiet) empty_store (demo_batch [demo_old])
      = (Inr o1, demo_first)" "insert_batch demo_engine (\<lambda>_. quiet) demo_first demo_second
      = (Inr o2, demo_store)"
    using demo_first_run demo_second_run by blast
  have "store_step demo_engine True empty_store demo_first"
    by (rule step_batch [where E = demo_engine and tm = 5, unfolded E, OF runs(1) demo_batches_ok(1)]) simp
  moreover have "store_step demo_engine True demo_first demo_store"
    by (rule step_batch [where E = demo_engine and tm = 5, unfolded E, OF runs(2) demo_batches_ok(2)]) simp
  ultimately show ?thesis unfolding reachable_def by (meson rtranclp.simps)
qed

lemma demo_ok: "store_ok demo_first" "store_ok demo_store"
proof -
  obtain o1 o2 where runs: "insert_batch demo_engine (\<lambda>_. quiet) empty_store (demo_batch [demo_old])
      = (Inr o1, demo_first)" "insert_batch demo_engine (\<lambda>_. quiet) demo_first demo_second
      = (Inr o2, demo_store)"
    using demo_first_run demo_second_run by blast
  show first: "store_ok demo_first"
    using insert_batch_ok [OF runs(1) demo_engine_ok empty_store_ok demo_batches_ok(1)] by simp
  show "store_ok demo_store"
    using insert_batch_ok [OF runs(2) demo_engine_ok first demo_batches_ok(2)] by simp
qed

section \<open>Properties\<close>

text \<open>C1: In every store the writes can reach, ids are unique, at most one memory of a space is live
  for one content hash, every close has its reason (and a successor exactly when it says superseded),
  no chain of successors comes back to where it began, episodes are unique by content, and every row
  reads back as a record.\<close>

theorem reachable_in_order:
  assumes "engine_ok E" and "reachable E st"
  shows "distinct (map m_id (st_memories st)) \<and>
    distinct (map (\<lambda>r. (m_space r, m_hash r)) (filter live (st_memories st))) \<and>
    list_all close_ok (st_memories st) \<and> acyclic (successor_rel (st_memories st)) \<and>
    distinct (map ep_key (st_episodes st)) \<and> list_all readable (st_memories st)"
proof -
  have ok: "store_ok st"
    using writes.run_keeps [of E empty_store st] assms by (simp add: reachable_def)
  then have keys: "distinct (map mem_key (filter live (st_memories st)))"
    by (simp add: store_ok_def rows_ok_def distinct_map_filter)
  have split: "map mem_key (filter live (st_memories st))
      = map (\<lambda>(s, h). (s, h, None)) (map (\<lambda>r. (m_space r, m_hash r)) (filter live (st_memories st)))"
    by (simp add: mem_key_def live_def)
  have "distinct (map (\<lambda>r. (m_space r, m_hash r)) (filter live (st_memories st)))"
    by (rule distinct_map [THEN iffD1, THEN conjunct1, OF keys [unfolded split]])
  with ok show ?thesis by (simp add: store_ok_def rows_ok_def)
qed

text \<open>A store with two memories, the second superseding the first.\<close>

theorem reachable_in_order_witness:
  "\<exists>st. length (st_memories st) = 2 \<and> reachable demo_engine st \<and>
     acyclic (successor_rel (st_memories st))"
proof -
  have "reachable demo_engine demo_store" by (rule demo_reachable)
  moreover from reachable_in_order [OF demo_engine_ok this]
  have "acyclic (successor_rel (st_memories demo_store))" by blast
  moreover have "length (st_memories demo_store) = 2" by (simp add: demo_store_def)
  ultimately show ?thesis by blast
qed

text \<open>C5: Whatever is written afterwards, short of a purge, a memory keeps its id, its claim, its
  provenance and its validity start, and once closed it keeps its close: the instant, the reason
  and the successor.\<close>

theorem history_kept:
  assumes "engine_ok E" and "store_ok st" and "(store_step E False)\<^sup>*\<^sup>* st st'"
    and "r \<in> set (st_memories st)"
  shows "\<exists>r' \<in> set (st_memories st'). m_id r' = m_id r \<and> m_content r' = m_content r \<and>
    m_space r' = m_space r \<and> m_source r' = m_source r \<and> m_derived_from r' = m_derived_from r \<and>
    m_valid_from r' = m_valid_from r \<and>
    (live r \<or> (m_invalid_at r', m_invalid_reason r', m_superseded_by r')
       = (m_invalid_at r, m_invalid_reason r, m_superseded_by r))"
proof -
  have "grows st st'" using history.run_later [of E st st'] assms(1-3) by blast
  with assms(4) obtain y where "y \<in> set (st_memories st')" "keeps r y"
    unfolding grows_def evolves_def by blast
  then show ?thesis by (intro bexI [of _ y]) (auto simp: keeps_def)
qed

text \<open>The closed memory of the store above, after a reinforcement of both.\<close>

theorem history_kept_witness:
  "\<exists>r r' st. r \<in> set (st_memories demo_store) \<and> \<not> live r \<and> r' \<in> set (st_memories st) \<and>
     store_step demo_engine False demo_store st \<and> m_superseded_by r' = m_superseded_by r"
proof -
  let ?r = "hd (st_memories demo_store)"
  let ?st = "snd (reinforce (demo_engine\<lparr>en_now := 9\<rparr>) [MemoryId ulid_a, MemoryId ulid_b] demo_store)"
  have step: "store_step demo_engine False demo_store ?st"
    by (rule step_reinforce [where ids = "[MemoryId ulid_a, MemoryId ulid_b]" and tm = 9
        and res''' = "fst (reinforce (demo_engine\<lparr>en_now := 9\<rparr>) [MemoryId ulid_a, MemoryId ulid_b] demo_store)"])
      simp
  have r: "?r \<in> set (st_memories demo_store)" "\<not> live ?r"
    by (simp_all add: demo_store_def live_def)
  have ok: "store_ok demo_store" using demo_ok(2) .
  from history_kept [OF demo_engine_ok ok r_into_rtranclp [of "store_step demo_engine False", OF step] r(1)]
  show ?thesis using r step by blast
qed

text \<open>C3: A batch lands whole or not at all: when it reports an error and no other session wrote in
  between, the store is the one it started from.\<close>

theorem batch_all_or_nothing:
  assumes "engine_ok E" and "store_ok st" and "batch_ok b"
    and "insert_batch E (\<lambda>_. quiet) st b = (Inl e, st')"
  shows "st' = st"
  using insert_batch_loop_cases [OF assms(4) [unfolded insert_batch_def] assms(1-3)] by simp

text \<open>A batch that supersedes a memory the space does not have.\<close>

theorem batch_all_or_nothing_witness:
  "\<exists>e st'. insert_batch demo_engine (\<lambda>_. quiet) empty_store
     (demo_batch [(new_memory_new Fact (lit ''x''))\<lparr>nm_supersedes := [MemoryId ulid_a]\<rparr>]) = (Inl e, st')
     \<and> st' = empty_store"
proof -
  let ?b = "demo_batch [(new_memory_new Fact (lit ''x''))\<lparr>nm_supersedes := [MemoryId ulid_a]\<rparr>]"
  have b: "batch_ok ?b" by (simp add: demo_batch_ok memory_id_ok_def nm_ok_def new_memory_new_def)
  have "insert_batch demo_engine (\<lambda>_. quiet) empty_store ?b
      = (Inl (UnknownMemory (b_space ?b) (MemoryId ulid_a)), empty_store)"
    by (simp add: insert_batch_def insert_batch_loop.simps insert_batch_once_def demo_batch_def
        ensure_memories_exist_def existing_memories_def empty_store_def new_memory_new_def)
  from batch_all_or_nothing [OF demo_engine_ok empty_store_ok b this] this show ?thesis by blast
qed

text \<open>C4: A batch that reports success has written what it says: each outcome names, in order, a row
  of the batch's space that holds that memory's content hash, and every id reported superseded is
  closed in favour of a successor.\<close>

theorem batch_outcome_holds:
  assumes "engine_ok E" and "store_ok st" and "batch_ok b" and "world_ok (worlds 0)"
    and "world_ok (worlds 1)" and "world_ok (worlds 2)"
    and "insert_batch E worlds st b = (Inr out, st')"
  shows "list_all2 (\<lambda>nm w. \<exists>r \<in> set (st_memories st').
      m_id r = memory_id_str (written_id w) \<and> m_space r = space_as_str (b_space b) \<and>
      m_hash r = en_hash E (nm_content nm)) (b_memories b) (bo_memories out) \<and>
    list_all (\<lambda>old. \<exists>r \<in> set (st_memories st'). m_id r = memory_id_str old \<and>
      m_superseded_by r \<noteq> None \<and> \<not> live r) (bo_superseded out)"
proof -
  let ?w = "\<lambda>k. if k < 3 then worlds k else quiet"
  have w: "world_ok (?w k)" for k
    using assms(4-6) by (cases "k = 0"; cases "k = 1"; cases "k = 2") simp_all
  have "insert_batch E ?w st b = (Inr out, st')"
    using assms(7) insert_batch_worlds [of E worlds quiet st b] by simp
  then have "reported E st' b out"
    using insert_batch_loop_cases [where n = 0 and res = "Inr out", OF _ assms(1-3) w]
    by (simp add: insert_batch_def)
  then have r: "list_all2 (\<lambda>nm w. \<exists>r \<in> set (st_memories st').
      m_id r = memory_id_str (written_id w) \<and> m_space r = space_as_str (b_space b) \<and>
      m_hash r = en_hash E (nm_content nm)) (b_memories b) (bo_memories out)"
    and closed': "list_all (\<lambda>old. \<exists>n. superseded_in st' (memory_id_str old) n) (bo_superseded out)"
    unfolding reported_def holds_claim_def by blast+
  from closed' have "list_all (\<lambda>old. \<exists>r \<in> set (st_memories st'). m_id r = memory_id_str old \<and>
      m_superseded_by r \<noteq> None \<and> \<not> live r) (bo_superseded out)"
    by (rule list.pred_mono_strong) (unfold superseded_in_def, metis option.distinct(1))
  with r show ?thesis by blast
qed

text \<open>Superseding the first memory of a store by a second.\<close>

theorem batch_outcome_holds_witness:
  "\<exists>out. insert_batch demo_engine (\<lambda>_. quiet) demo_first demo_second = (Inr out, demo_store) \<and>
     bo_superseded out = [MemoryId ulid_a] \<and>
     list_all (\<lambda>old. \<exists>r \<in> set (st_memories demo_store). m_id r = memory_id_str old \<and>
       m_superseded_by r \<noteq> None \<and> \<not> live r) (bo_superseded out)"
proof -
  obtain out where out: "insert_batch demo_engine (\<lambda>_. quiet) demo_first demo_second
      = (Inr out, demo_store)" "bo_superseded out = [MemoryId ulid_a]"
    using demo_second_run by blast
  from batch_outcome_holds [OF demo_engine_ok demo_ok(1) demo_batches_ok(2) _ _ _ out(1)] out
  show ?thesis by auto
qed

text \<open>C6: Storing a claim again is a lookup: a memory whose content hash a live row of the space
  already has is reported as a duplicate of that row, and nothing is written.\<close>

theorem duplicate_writes_nothing:
  assumes "store_ok st" and "r \<in> set (st_memories st)" and "live r"
    and "m_space r = space_as_str (b_space b)" and "m_hash r = en_hash E (nm_content nm)"
    and "b_episode b = None" and "b_memories b = [nm]" and "nm_supersedes nm = []"
  shows "insert_batch E (\<lambda>_. quiet) st b =
    (Inr \<lparr>bo_episode = None, bo_memories = [Duplicate (MemoryId (m_id r))], bo_superseded = [],
          bo_already_closed = []\<rparr>, st)"
proof -
  have dist: "distinct (map mem_key (st_memories st))" and "is_ulid (m_id r)"
    using assms(1,2) by (auto simp: store_ok_def rows_ok_def ids_ok_def list_all_iff)
  have dup: "live_duplicate st (space_as_str (b_space b)) (en_hash E (nm_content nm)) = Some r"
  proof (cases "live_duplicate st (space_as_str (b_space b)) (en_hash E (nm_content nm))")
    case None
    from live_duplicate_None [OF None assms(2,4,5)] assms(3) show ?thesis by simp
  next
    case (Some d)
    from live_duplicate_Some [OF Some] assms(3-5) have "mem_key d = mem_key r" "d \<in> set (st_memories st)"
      by (simp_all add: mem_key_def live_def)
    with dist assms(2) have "d = r" by (simp add: distinct_map inj_on_def)
    with Some show ?thesis by simp
  qed
  have "insert_memory E (b_space b) (b_writer b) None nm st = Inr (st, m_id r, False)"
    by (simp add: insert_memory_def dup assms(8))
  with \<open>is_ulid (m_id r)\<close> show ?thesis
    by (simp add: insert_batch_def insert_batch_loop.simps insert_batch_once_def assms(6-8)
        ensure_memories_exist_def closed_memories_def quiet_def insert_batch_txn_def
        batch_report_def written_row_ok superseded_by_batch_def)
qed

text \<open>The same memory stored twice.\<close>

theorem duplicate_writes_nothing_witness:
  "\<exists>out. insert_batch demo_engine (\<lambda>_. quiet) demo_first (demo_batch [new_memory_new Fact (lit ''old'')])
     = (Inr out, demo_first) \<and> bo_memories out = [Duplicate (MemoryId ulid_a)]"
proof -
  let ?r = "hd (st_memories demo_first)"
  have "?r \<in> set (st_memories demo_first)" "live ?r" "m_id ?r = ulid_a"
    "m_space ?r = space_as_str (b_space (demo_batch [new_memory_new Fact (lit ''old'')]))"
    "m_hash ?r = en_hash demo_engine (nm_content (new_memory_new Fact (lit ''old'')))"
    by (simp_all add: demo_first_def live_def demo_batch_def demo_engine_def new_memory_new_def
        memory_row_def)
  note r = this
  from duplicate_writes_nothing [OF demo_ok(1) r(1,2,4,5)] r(3) show ?thesis
    by (simp add: demo_batch_def new_memory_new_def)
qed


end
