(* ===== verification/StoreMaint.thy ===== *)
theory StoreMaint
  imports StoreSteps
begin

text \<open>
  The writes that are not batches: soft and hard forgetting, the decay sweep, reinforcement, and the
  error a failed transaction reports; with the cases where a write does something its caller may not
  expect.
\<close>

section \<open>Forgetting\<close>

lemma collect_ids: "collect_results memory_id_new xs = Inr ids \<Longrightarrow> map memory_id_str ids = xs"
  by (induction xs arbitrary: ids) auto

lemma forget_row_not_live [simp]: "\<not> live (forget_row E r)" "\<not> live (expire_row E r)"
  by (simp_all add: forget_row_def expire_row_def live_def)

lemma store_ok_ids: "store_ok st \<Longrightarrow> distinct (map m_id (st_memories st))"
  by (simp add: store_ok_def rows_ok_def)

section \<open>The sweep\<close>

lemma expire_row_not_due [simp]: "\<not> prune_due E h (expire_row E r)"
  by (simp add: prune_due_def)

text \<open>Where no row is due, the sweep is empty.\<close>

lemma update_where_none:
  "\<forall>r \<in> set rows. \<not> P r \<Longrightarrow> update_where P f ids rows = Inr (rows, [])"
proof (induction ids)
  case (Cons i ids)
  then show ?case using find_row_Some by (fastforce split: option.splits)
qed simp

section \<open>Reinforcement\<close>

lemma reinforce_row_key [simp]:
  "mem_key (reinforce_row E r) = mem_key r" "live (reinforce_row E r) = live r"
  by (simp_all add: reinforce_row_def mem_key_def live_def)

text \<open>An update that moves no key cannot meet the unique index.\<close>

lemma update_where_total:
  assumes "\<And>x. m_id (f x) = m_id x" and "\<And>x. mem_key (f x) = mem_key x"
    and "distinct (map m_id rows)" and "distinct (map mem_key rows)"
  shows "\<exists>rows' changed. update_where P f ids rows = Inr (rows', changed)"
  using assms(3,4)
proof (induction ids arbitrary: rows)
  case (Cons i ids)
  show ?case
  proof (cases "\<exists>r. find_row rows i = Some r \<and> P r")
    case False
    with Cons.IH [OF Cons.prems] show ?thesis by (auto split: option.splits)
  next
    case True
    then obtain r where r: "find_row rows i = Some r" "P r" by blast
    have r_in: "r \<in> set rows" using find_row_Some [OF r(1)] by simp
    have "mem_key x \<noteq> mem_key (f r)" if "x \<in> set rows" "m_id x \<noteq> m_id (f r)" for x
    proof -
      have "x \<noteq> r" using that(2) assms(1) by auto
      then show ?thesis using Cons.prems(2) that(1) r_in assms(2) by (auto simp: distinct_map inj_on_def)
    qed
    then obtain mid where put: "put_row (f r) rows = Inr mid" by (simp add: put_row_Inr)
    have "distinct (map m_id mid)" "distinct (map mem_key mid)"
      using put_row_ids [OF put] put_row_keys [OF put] Cons.prems by simp_all
    from Cons.IH [OF this] obtain rows' ch where "update_where P f ids mid = Inr (rows', ch)" by blast
    with put r show ?thesis by simp
  qed
qed simp

lemma update_where_distinct:
  "update_where P f ids rows = Inr (rows', changed) \<Longrightarrow> distinct ids \<Longrightarrow> distinct changed"
proof (induction ids arbitrary: rows rows' changed)
  case (Cons i ids)
  from Cons.prems(1) consider "update_where P f ids rows = Inr (rows', changed)"
    | mid ch where "update_where P f ids mid = Inr (rows', ch)" "changed = i # ch"
    by (auto split: option.splits if_splits)
  then show ?case
  proof cases
    case 2
    with Cons.IH [OF 2(1)] Cons.prems(2) update_where_length [OF 2(1)] show ?thesis by auto
  qed (use Cons in simp)
qed simp

section \<open>A claim asserted again\<close>

text \<open>
  The small store with its superseded claim stored once more, and a batch that supersedes that copy
  with the validity start of the first successor.
\<close>

definition demo_again :: store where
  "demo_again = demo_store\<lparr>st_memories := st_memories demo_store @
     [memory_row demo_engine demo_space default_writer None demo_old ulid_c], st_minted := 3\<rparr>"

definition demo_third :: new_memory where
  "demo_third = (new_memory_new Fact (lit ''newer''))\<lparr>nm_supersedes := [MemoryId ulid_c],
     nm_valid_from := Some 5\<rparr>"

lemma close_row_not_live [simp]: "\<not> live (close_row b t r)"
  by (simp add: live_def)

lemma demo_again_run:
  "\<exists>out. insert_batch demo_engine (\<lambda>_. quiet) demo_store (demo_batch [demo_old]) = (Inr out, demo_again)"
  by (simp add: insert_batch_def insert_batch_loop.simps insert_batch_once_def demo_batch_def
      ensure_memories_exist_def closed_memories_def quiet_def insert_batch_txn_def
      insert_memory_def live_duplicate_def empty_store_def mint_def create_row_def Let_def
      mem_key_def batch_report_def written_row_ok demo_store_def demo_again_def lit_inject)
    (simp add: memory_row_def)

lemma demo_again_reachable: "reachable demo_engine demo_again"
proof -
  have E: "demo_engine\<lparr>en_now := 5\<rparr> = demo_engine" by (simp add: demo_engine_def)
  obtain out where run: "insert_batch demo_engine (\<lambda>_. quiet) demo_store (demo_batch [demo_old])
      = (Inr out, demo_again)"
    using demo_again_run by blast
  have "store_step demo_engine True demo_store demo_again"
    by (rule step_batch [where E = demo_engine and tm = 5, unfolded E, OF run demo_batches_ok(1)]) simp
  with demo_reachable show ?thesis unfolding reachable_def by (meson rtranclp.simps)
qed

lemma demo_stuck:
  "\<exists>st b. reachable demo_engine st \<and> batch_ok b \<and>
     list_all (\<lambda>nm. list_all (\<lambda>i. \<exists>r \<in> set (st_memories st). m_id r = memory_id_str i \<and> live r)
       (nm_supersedes nm)) (b_memories b) \<and>
     insert_batch demo_engine (\<lambda>_. quiet) st b = (Inl (Db mem_hash_live), st)"
proof (intro exI conjI)
  show "reachable demo_engine demo_again" by (rule demo_again_reachable)
  show "batch_ok (demo_batch [demo_third])"
    by (simp add: demo_batch_ok nm_ok_def demo_third_def new_memory_new_def memory_id_ok_def)
  show "list_all (\<lambda>nm. list_all (\<lambda>i. \<exists>r \<in> set (st_memories demo_again). m_id r = memory_id_str i
      \<and> live r) (nm_supersedes nm)) (b_memories (demo_batch [demo_third]))"
    by (simp add: demo_again_def demo_batch_def demo_third_def demo_store_def)
  have once: "insert_batch_once demo_engine quiet demo_again (demo_batch [demo_third])
      = (Inl (Db mem_hash_live), demo_again)"
    by (simp add: insert_batch_once_def demo_batch_def
        ensure_memories_exist_def existing_memories_def closed_memories_def quiet_def
        insert_batch_txn_def insert_memory_def live_duplicate_def empty_store_def
        mint_def create_row_def Let_def mem_key_def supersede_targets_def find_row_def put_row_def
        demo_again_def demo_store_def demo_third_def new_memory_new_def valid_from_of_def
        lit_inject)
  show "insert_batch demo_engine (\<lambda>_. quiet) demo_again (demo_batch [demo_third])
      = (Inl (Db mem_hash_live), demo_again)"
    by (simp add: insert_batch_def insert_batch_loop.simps once)
qed

section \<open>Properties\<close>

text \<open>C7: Forgetting without purge closes, with reason forgotten and now as the instant, exactly the
  live memories that are named and in the given spaces; every other memory, and every episode and
  chunk, stays as it is, and the answer names what was closed.\<close>

theorem forget_closes_exactly:
  assumes "store_ok st" and "\<not> f_purge request" and "forget E request st = (Inr out, st')"
  shows "st_memories st' = map (\<lambda>r.
      if m_space r \<in> space_as_str ` set (f_spaces request) \<and> live r \<and>
         m_id r \<in> memory_id_str ` set (f_memories request)
      then r\<lparr>m_invalid_at := Some (en_now E), m_invalid_reason := Some (lit ''forgotten'')\<rparr>
      else r) (st_memories st) \<and>
    st_episodes st' = st_episodes st \<and> st_chunks st' = st_chunks st \<and>
    memory_id_str ` set (fg_memories out) = m_id ` {r \<in> set (st_memories st).
      m_space r \<in> space_as_str ` set (f_spaces request) \<and> live r \<and>
      m_id r \<in> memory_id_str ` set (f_memories request)}"
proof -
  let ?P = "\<lambda>r. m_space r \<in> set (map space_as_str (f_spaces request)) \<and> live r"
  from assms(2,3) obtain rows gone where
    upd: "update_where ?P (forget_row E) (map memory_id_str (f_memories request)) (st_memories st)
      = Inr (rows, gone)" and st': "st' = st\<lparr>st_memories := rows\<rparr>"
    and ids: "collect_results memory_id_new gone = Inr (fg_memories out)"
    by (auto simp: forget_def forget_soft_def Let_def split: sum.splits)
  have "rows = map (\<lambda>x. if ?P x \<and> m_id x \<in> set (map memory_id_str (f_memories request))
      then forget_row E x else x) (st_memories st)"
    "set gone = m_id ` {x \<in> set (st_memories st). ?P x \<and>
      m_id x \<in> set (map memory_id_str (f_memories request))}"
    using update_where_map [OF upd store_ok_ids [OF assms(1)]] by auto
  moreover have "memory_id_str ` set (fg_memories out) = set gone"
    using collect_ids [OF ids] by (metis set_map)
  ultimately show ?thesis by (simp add: st' forget_row_def conj_assoc)
qed

text \<open>Forgetting both memories of the store, one of them already closed.\<close>

theorem forget_closes_exactly_witness:
  "\<exists>out st'. forget demo_engine \<lparr>f_spaces = [demo_space], f_memories = [MemoryId ulid_a, MemoryId ulid_b],
      f_episodes = [], f_purge = False\<rparr> demo_store = (Inr out, st') \<and>
    memory_id_str ` set (fg_memories out) = {ulid_b}"
proof -
  let ?q = "\<lparr>f_spaces = [demo_space], f_memories = [MemoryId ulid_a, MemoryId ulid_b],
      f_episodes = [], f_purge = False\<rparr>"
  have live: "\<not> live (close_row b t r)" for b t r by (simp add: live_def)
  obtain out st' where run: "forget demo_engine ?q demo_store = (Inr out, st')"
    by (simp add: forget_def forget_soft_def demo_store_def find_row_def live put_row_def
        mem_key_def lit_inject forget_row_def)
  have "\<not> f_purge ?q" by simp
  from forget_closes_exactly [OF demo_ok(2) this run]
  have "memory_id_str ` set (fg_memories out) = m_id ` {r \<in> set (st_memories demo_store).
      m_space r \<in> space_as_str ` set (f_spaces ?q) \<and> live r \<and>
      m_id r \<in> memory_id_str ` set (f_memories ?q)}"
    by blast
  also have "{r \<in> set (st_memories demo_store). m_space r \<in> space_as_str ` set (f_spaces ?q) \<and>
      live r \<and> m_id r \<in> memory_id_str ` set (f_memories ?q)}
      = {memory_row demo_engine demo_space default_writer None demo_new ulid_b}"
    by (auto simp: demo_store_def)
  finally have "memory_id_str ` set (fg_memories out) = {ulid_b}" by simp
  with run show ?thesis by blast
qed



text \<open>C9: The sweep's condition is the retention curve up to the rounding to whole seconds: a row that is
  due is below the threshold half a second later at most, and a live row of the class that was below
  it half a second ago is due.\<close>

theorem prune_follows_retention:
  assumes "decay_horizon_secs Fast prune_retention = Some h"
    and "m_last_accessed r \<le> en_now E - 500000000"
  shows "(prune_due E h r \<longrightarrow>
      retention Fast (m_strength r) (m_last_accessed r) (en_now E + 500000000) < prune_retention) \<and>
    (retention Fast (m_strength r) (m_last_accessed r) (en_now E - 500000000) < prune_retention \<longrightarrow>
      live r \<longrightarrow> m_decay r = lit ''fast'' \<longrightarrow> prune_due E h r)"
proof -
  let ?k = "clamp min_stability max_stability (m_strength r)"
  have k: "min (max (m_strength r) min_stability) max_stability = ?k"
    by (rule clamp_min_max [symmetric]) (simp add: min_stability_def max_stability_def)
  have due: "prune_due E h r \<longleftrightarrow> m_decay r = lit ''fast'' \<and> live r \<and>
      m_last_accessed r + 1000000000 * \<lfloor>h * ?k + 1 / 2\<rfloor> < en_now E"
    by (simp add: prune_due_def prune_class_def k)
  have later: "retention Fast (m_strength r) (m_last_accessed r) (en_now E + 500000000) < prune_retention
      \<longleftrightarrow> h * ?k < as_secs (en_now E + 500000000 - m_last_accessed r)"
    by (rule retention_below_iff [OF assms(1)]) (use assms(2) in simp)
  have earlier: "retention Fast (m_strength r) (m_last_accessed r) (en_now E - 500000000) < prune_retention
      \<longleftrightarrow> h * ?k < as_secs (en_now E - 500000000 - m_last_accessed r)"
    by (rule retention_below_iff [OF assms(1)]) (use assms(2) in simp)
  let ?f = "\<lfloor>h * ?k + 1 / 2\<rfloor>"
  have fl: "real_of_int ?f \<le> h * ?k + 1 / 2" "h * ?k + 1 / 2 < real_of_int ?f + 1"
    by linarith+
  have "h * ?k < as_secs (en_now E + 500000000 - m_last_accessed r)"
    if "m_last_accessed r + 1000000000 * ?f < en_now E"
  proof -
    from that have "real_of_int (m_last_accessed r) + 1000000000 * real_of_int ?f
        < real_of_int (en_now E)" by linarith
    with fl show ?thesis by (simp add: as_secs_def field_simps)
  qed
  moreover have "m_last_accessed r + 1000000000 * ?f < en_now E"
    if "h * ?k < as_secs (en_now E - 500000000 - m_last_accessed r)"
  proof -
    from that have "1000000000 * (h * ?k) < real_of_int (en_now E) - 500000000
        - real_of_int (m_last_accessed r)"
      by (simp add: as_secs_def field_simps)
    moreover have "1000000000 * real_of_int ?f \<le> 1000000000 * (h * ?k) + 500000000"
      using fl(1) by linarith
    ultimately have "real_of_int (m_last_accessed r) + 1000000000 * real_of_int ?f
        < real_of_int (en_now E)" by linarith
    then have "real_of_int (m_last_accessed r + 1000000000 * ?f) < real_of_int (en_now E)" by simp
    then show ?thesis by (simp only: of_int_less_iff)
  qed
  ultimately show ?thesis unfolding later earlier due by blast
qed

text \<open>A fast memory a hundred days after its last access.\<close>

theorem prune_follows_retention_witness:
  "\<exists>h. decay_horizon_secs Fast prune_retention = Some h \<and>
     (prune_due (demo_engine\<lparr>en_now := 8640000000000000\<rparr>) h (hd (st_memories demo_first)) \<longrightarrow>
      retention Fast 1 5 (8640000000000000 + 500000000) < prune_retention)"
proof -
  obtain h where h: "decay_horizon_secs Fast prune_retention = Some h"
    by (simp add: decay_horizon_secs_def prune_retention_def)
  let ?r = "hd (st_memories demo_first)"
  have "m_last_accessed ?r = 5" "m_strength ?r = 1"
    by (simp_all add: demo_first_def memory_row_def)
  with prune_follows_retention [OF h, of ?r "demo_engine\<lparr>en_now := 8640000000000000\<rparr>"] h
  show ?thesis by auto
qed

text \<open>C10: Reinforcing memories never fails on a store in order: each named row gains one on its
  strength, up to the cap, and one access at the present instant, nothing else of the store changes,
  and the answer is how many rows were named.\<close>

theorem reinforce_strengthens:
  assumes "store_ok st" and "distinct ids"
  shows "reinforce E ids st =
    (Inr (card {r \<in> set (st_memories st). m_id r \<in> memory_id_str ` set ids}),
     st\<lparr>st_memories := map (\<lambda>r. if m_id r \<in> memory_id_str ` set ids
       then r\<lparr>m_strength := min (m_strength r + 1) max_stability,
              m_access_count := m_access_count r + 1, m_last_accessed := en_now E\<rparr>
       else r) (st_memories st)\<rparr>)"
proof (cases "ids = []")
  case False
  have d: "distinct (map m_id (st_memories st))" "distinct (map mem_key (st_memories st))"
    using assms(1) by (simp_all add: store_ok_def rows_ok_def)
  have inj: "inj memory_id_str" by (rule injI) (metis memory_id_str.elims)
  have ids: "distinct (map memory_id_str ids)"
    using assms(2) inj_on_subset [OF inj subset_UNIV] by (simp add: distinct_map)
  obtain rows changed where
    upd: "update_where (\<lambda>_. True) (reinforce_row E) (map memory_id_str ids) (st_memories st)
      = Inr (rows, changed)"
    using update_where_total [OF _ _ d] by force
  have rows: "rows = map (\<lambda>x. if m_id x \<in> memory_id_str ` set ids then reinforce_row E x else x)
      (st_memories st)"
    and ch: "set changed = m_id ` {x \<in> set (st_memories st). m_id x \<in> memory_id_str ` set ids}"
    using update_where_map [OF upd d(1)] ids by auto
  have "distinct changed" using update_where_distinct [OF upd ids] .
  then have "length changed = card (set changed)" by (simp add: distinct_card)
  also have "\<dots> = card {x \<in> set (st_memories st). m_id x \<in> memory_id_str ` set ids}"
    unfolding ch by (rule card_image) (use d(1) in \<open>auto simp: distinct_map inj_on_def\<close>)
  finally show ?thesis
    using False upd rows by (simp add: reinforce_def reinforce_row_def)
qed (simp add: reinforce_def)

text \<open>Reinforcing one memory of two.\<close>

theorem reinforce_strengthens_witness:
  "reinforce demo_engine [MemoryId ulid_b] demo_store =
    (Inr (card {r \<in> set (st_memories demo_store). m_id r \<in> {ulid_b}}),
     demo_store\<lparr>st_memories := map (\<lambda>r. if m_id r \<in> {ulid_b}
       then r\<lparr>m_strength := min (m_strength r + 1) max_stability,
              m_access_count := m_access_count r + 1, m_last_accessed := 5\<rparr>
       else r) (st_memories demo_store)\<rparr>)"
  using reinforce_strengthens [OF demo_ok(2), of "[MemoryId ulid_b]" demo_engine] by simp

text \<open>C33: Of the errors a failed script reports by statement, the one returned is the first that says
  what failed, when there is one: a statement refused only because the transaction had already
  failed never hides it.\<close>

theorem checked_names_cause:
  assumes "(i, e) \<in> set errors" and "\<not> is_follow_on e"
  shows "\<exists>j e'. checked errors = Some e' \<and> (j, e') \<in> set errors \<and> \<not> is_follow_on e' \<and> j \<le> i"
proof -
  let ?s = "sort_key fst errors"
  have "sorted (map fst ?s)" by simp
  have "e \<in> set (map snd ?s)" using assms(1) by force
  with assms(2) obtain e' where f: "find (\<lambda>e. \<not> is_follow_on e) (map snd ?s) = Some e'"
    by (metis find_None_iff option.exhaust)
  then obtain n where n: "n < length ?s" "snd (?s ! n) = e'" "\<not> is_follow_on e'"
    and before: "\<forall>m < n. is_follow_on (snd (?s ! m))"
    by (auto simp: find_Some_iff)
  obtain k where k: "k < length ?s" "?s ! k = (i, e)"
    using assms(1) by (metis in_set_conv_nth set_sort)
  have "n \<le> k" using before k assms(2) by (metis not_le snd_conv)
  then have "fst (?s ! n) \<le> i"
    using \<open>sorted (map fst ?s)\<close> n(1) k
    by (metis (no_types, lifting) fst_conv length_map nth_map sorted_nth_mono)
  moreover have "?s ! n \<in> set errors" using n(1) by (metis nth_mem set_sort)
  moreover have "checked errors = Some e'" by (simp add: checked_def Let_def f)
  ultimately show ?thesis using n(2,3) by (metis prod.collapse)
qed

text \<open>The third statement failed; the first two are refused because of it.\<close>

theorem checked_names_cause_witness:
  "\<exists>j e'. checked [(0, DbError (lit ''failed transaction'')), (2, mem_hash_live)] = Some e' \<and>
     (j, e') \<in> {(0, DbError (lit ''failed transaction'')), (2, mem_hash_live)} \<and> \<not> is_follow_on e'"
proof -
  have "\<not> is_follow_on mem_hash_live"
    by (simp add: is_follow_on_def mem_hash_live_def index_error_def lit_def)
  from checked_names_cause [OF _ this, of 2 "[(0, DbError (lit ''failed transaction'')), (2, mem_hash_live)]"]
  show ?thesis by auto
qed


text \<open>C35: Sequential writes of one session can meet the unique index that v5 gives to concurrent
  ones: superseding a re-asserted claim with the validity start its first copy was closed at is
  refused on every try, though its target is live and nobody else writes.\<close>

theorem reasserted_claim_stuck:
  "\<exists>st b. reachable demo_engine st \<and> batch_ok b \<and>
     list_all (\<lambda>nm. list_all (\<lambda>i. \<exists>r \<in> set (st_memories st). m_id r = memory_id_str i \<and> live r)
       (nm_supersedes nm)) (b_memories b) \<and>
     insert_batch demo_engine (\<lambda>_. quiet) st b = (Inl (Db mem_hash_live), st)"
  using demo_stuck by blast


end
