(* ===== verification/StoreRead.thy ===== *)
theory StoreRead
  imports StoreMaint "HOL-Library.Product_Lexorder"
begin

text \<open>
  The read half of the repository, \<open>crates/agmem-store/src/repo/read.rs\<close> with the SurrealQL it sends
  (\<open>queries/read.rs\<close>).

  What the engine computes and the source only names is in the record \<open>retrieval\<close>: a term's BM25
  score, the bare KNN scan, rank fusion and the recursive walk of a record link. Everything the query
  texts say around them (filters, orders, limits, joins) is defined here. Where a query orders rows by
  a key two of them share, the engine's order of the two is open; here it is the table's.
\<close>

section \<open>Constants\<close>

definition over_fetch :: nat where "over_fetch = 4"
definition neighbours :: nat where "neighbours = 4"
definition near_dup_probe :: nat where "near_dup_probe = 256"
definition max_terms :: nat where "max_terms = 12"
definition rrf_k :: nat where "rrf_k = 60"
definition max_pool :: nat where "max_pool = 1000"
definition default_pool :: nat where "default_pool = 64"

definition clamp_limit :: "nat \<Rightarrow> nat" where
  "clamp_limit n = max 1 (min n max_pool)"

section \<open>Requests and answers\<close>

record filters =
  fl_kinds :: "kind list"
  fl_entities :: "str list"
  fl_tags :: "str list"

definition no_filters :: filters where
  "no_filters = \<lparr>fl_kinds = [], fl_entities = [], fl_tags = []\<rparr>"

datatype liveness = Live | AsOf timestamp | Any

record search =
  s_spaces :: "space_name list"
  s_text :: "str option"
  s_vector :: "flt list option"
  s_filters :: filters
  s_liveness :: liveness
  s_pool :: nat
  s_episodes :: bool

definition search_new :: "space_name list \<Rightarrow> search" where
  "search_new spaces =
     \<lparr>s_spaces = spaces, s_text = None, s_vector = None, s_filters = no_filters,
      s_liveness = Live, s_pool = default_pool, s_episodes = True\<rparr>"

record lookup =
  l_spaces :: "space_name list"
  l_filters :: filters
  l_liveness :: liveness
  l_limit :: nat

definition lookup_new :: "space_name list \<Rightarrow> lookup" where
  "lookup_new spaces =
     \<lparr>l_spaces = spaces, l_filters = no_filters, l_liveness = Live, l_limit = default_pool\<rparr>"

datatype hit = HitMemory memory_record | HitChunk episode_chunk

record candidate =
  cd_rrf :: real
  cd_similarity :: "real option"
  cd_hit :: hit

record neighbour =
  nb_id :: memory_id
  nb_content :: str
  nb_similarity :: real

record episode_detail =
  ed_episode :: episode
  ed_chunks :: "episode_chunk list"
  ed_derived :: "memory_record list"

record document_filter =
  df_kinds :: "doc_kind list"
  df_tags :: "str list"
  df_limit :: nat

record document_summary =
  ds_episode :: episode
  ds_cited :: nat

record space_stats =
  ss_space :: space_name
  ss_memories :: nat
  ss_live :: nat
  ss_live_by_kind :: "(kind \<times> nat) list"
  ss_episodes :: nat
  ss_chunks :: nat
  ss_documents :: nat

record embedded =
  em_memory :: memory_record
  em_embedding :: "flt list"

record stale_params =
  sp_min_access_count :: nat
  sp_limit :: nat

definition stale_params_new :: stale_params where
  "stale_params_new = \<lparr>sp_min_access_count = 5, sp_limit = default_pool\<rparr>"

record document_header =
  dh_id :: episode_id
  dh_title :: str
  dh_doc_kind :: doc_kind

record document_churn =
  dc_title :: str
  dc_doc_kind :: doc_kind
  dc_versions :: nat
  dc_newest :: episode_id
  dc_first_at :: timestamp
  dc_latest_at :: timestamp

section \<open>What the engine computes\<close>

text \<open>Ids are pairs of table and key where two tables meet.\<close>

record retrieval =
  rt_score_memory :: "str \<Rightarrow> mem_row \<Rightarrow> real option"
  rt_score_chunk :: "str \<Rightarrow> chunk_row \<Rightarrow> real option"
  rt_knn_memory :: "nat \<Rightarrow> flt list \<Rightarrow> store \<Rightarrow> (mem_row \<times> real) list"
  rt_knn_chunk :: "nat \<Rightarrow> flt list \<Rightarrow> store \<Rightarrow> (chunk_row \<times> real) list"
  rt_rrf :: "(str \<times> str) list list \<Rightarrow> nat \<Rightarrow> nat \<Rightarrow> ((str \<times> str) \<times> real) list"
  rt_walk :: "(str \<Rightarrow> str list) \<Rightarrow> str \<Rightarrow> str list"

section \<open>Terms\<close>

text \<open>\<open>char::is_alphanumeric\<close> is the parameter \<open>alnum\<close>, \<open>str::to_lowercase\<close> is \<open>lower\<close>.\<close>

fun terms_loop :: "(str \<Rightarrow> str) \<Rightarrow> str list \<Rightarrow> str list \<Rightarrow> str list" where
  "terms_loop lower [] acc = acc"
| "terms_loop lower (token # pieces) acc =
     (if token = [] then terms_loop lower pieces acc
      else let term = lower token;
               acc = (if term \<in> set acc then acc else acc @ [term])
           in if length acc = max_terms then acc else terms_loop lower pieces acc)"

text \<open>\<open>str::split\<close> on a character predicate: every separator ends a piece, pieces may be empty.\<close>

fun split_on :: "(uchar \<Rightarrow> bool) \<Rightarrow> str \<Rightarrow> str \<Rightarrow> str list" where
  "split_on sep w [] = [w]"
| "split_on sep w (c # cs) =
     (if sep c then w # split_on sep [] cs else split_on sep (w @ [c]) cs)"

definition terms :: "(uchar \<Rightarrow> bool) \<Rightarrow> (str \<Rightarrow> str) \<Rightarrow> str \<Rightarrow> str list" where
  "terms alnum lower content = terms_loop lower (split_on (\<lambda>c. \<not> alnum c) [] content) []"

section \<open>The clauses reads share\<close>

definition contains_any :: "str list \<Rightarrow> str list \<Rightarrow> bool" where
  "contains_any xs ys \<longleftrightarrow> list_ex (\<lambda>x. x \<in> set ys) xs"

definition memory_where :: "engine \<Rightarrow> space_name list \<Rightarrow> filters \<Rightarrow> liveness \<Rightarrow> mem_row \<Rightarrow> bool" where
  "memory_where E spaces f l r \<longleftrightarrow>
     m_space r \<in> set (map space_as_str spaces) \<and>
     (case l of
        Live \<Rightarrow> m_invalid_at r = None
      | AsOf t \<Rightarrow>
          m_valid_from r \<le> en_datetime E t \<and>
          (case m_invalid_at r of None \<Rightarrow> True | Some c \<Rightarrow> en_datetime E t < c)
      | Any \<Rightarrow> True) \<and>
     (fl_kinds f = [] \<or> m_kind r \<in> set (map kind_as_str (fl_kinds f))) \<and>
     (fl_entities f = [] \<or> contains_any (m_entities r) (fl_entities f)) \<and>
     (fl_tags f = [] \<or> contains_any (m_tags r) (fl_tags f))"

text \<open>A missing \<open>occurred_at\<close> fails the comparison.\<close>

definition chunk_where :: "engine \<Rightarrow> space_name list \<Rightarrow> liveness \<Rightarrow> chunk_row \<Rightarrow> bool" where
  "chunk_where E spaces l c \<longleftrightarrow>
     c_space c \<in> set (map space_as_str spaces) \<and>
     (case l of
        AsOf t \<Rightarrow> (case c_occurred_at c of None \<Rightarrow> False | Some s \<Rightarrow> s \<le> en_datetime E t)
      | Live \<Rightarrow> True | Any \<Rightarrow> True)"

section \<open>Hybrid search\<close>

text \<open>
  One fulltext arm: a row matches when any term does, and scores the sum of what matched; a term that
  did not match contributes nothing.
\<close>

definition fulltext :: "(str \<Rightarrow> 'r \<Rightarrow> real option) \<Rightarrow> str list \<Rightarrow> 'r \<Rightarrow> real option" where
  "fulltext score ts r =
     (if list_ex (\<lambda>t. score t r \<noteq> None) ts
      then Some (sum_list (map (\<lambda>t. case score t r of None \<Rightarrow> 0 | Some s \<Rightarrow> s) ts)) else None)"

definition text_arm ::
  "(str \<Rightarrow> 'r \<Rightarrow> real option) \<Rightarrow> str list \<Rightarrow> ('r \<Rightarrow> bool) \<Rightarrow> nat \<Rightarrow> 'r list \<Rightarrow> 'r list" where
  "text_arm score ts P pool rows =
     take pool (sort_key (\<lambda>r. - the (fulltext score ts r))
       (filter (\<lambda>r. P r \<and> fulltext score ts r \<noteq> None) rows))"

definition vector_arm :: "('r \<Rightarrow> bool) \<Rightarrow> nat \<Rightarrow> ('r \<times> real) list \<Rightarrow> ('r \<times> real) list" where
  "vector_arm P pool drawn = take pool (sort_key snd (filter (\<lambda>(r, d). P r) drawn))"

record search_row =
  hr_scored :: "((str \<times> str) \<times> real) list"
  hr_nearest :: "((str \<times> str) \<times> real) list"
  hr_memories :: "mem_row list"
  hr_chunks :: "chunk_row list"

definition memory_key :: "mem_row \<Rightarrow> str \<times> str" where
  "memory_key r = (memory_table, m_id r)"

definition chunk_key :: "chunk_row \<Rightarrow> str \<times> str" where
  "chunk_key c = (episode_chunk_table, c_id c)"

definition search_query ::
  "retrieval \<Rightarrow> engine \<Rightarrow> store \<Rightarrow> search \<Rightarrow> str list \<Rightarrow> search_row" where
  "search_query R E st q ts =
     (let pool = clamp_limit (s_pool q);
          mem = memory_where E (s_spaces q) (s_filters q) (s_liveness q);
          chk = chunk_where E (s_spaces q) (s_liveness q);
          ft = (if ts \<noteq> [] then [map memory_key
                 (text_arm (rt_score_memory R) ts mem pool (st_memories st))] else []);
          vs = (case s_vector q of None \<Rightarrow> []
                | Some v \<Rightarrow> vector_arm mem pool (rt_knn_memory R (pool * over_fetch) v st));
          ftc = (if s_episodes q \<and> ts \<noteq> [] then [map chunk_key
                 (text_arm (rt_score_chunk R) ts chk pool (st_chunks st))] else []);
          vsc = (if s_episodes q then
                   (case s_vector q of None \<Rightarrow> []
                    | Some v \<Rightarrow> vector_arm chk pool (rt_knn_chunk R (pool * over_fetch) v st))
                 else []);
          vlist = (if s_vector q \<noteq> None then [map (\<lambda>(r, d). memory_key r) vs] else []);
          vclist = (if s_episodes q \<and> s_vector q \<noteq> None then [map (\<lambda>(r, d). chunk_key r) vsc] else []);
          fused = rt_rrf R (ft @ vlist @ ftc @ vclist) pool rrf_k;
          hits = map fst fused
      in \<lparr>hr_scored = fused,
          hr_nearest = map (\<lambda>(r, d). (memory_key r, d)) vs @ map (\<lambda>(c, d). (chunk_key c, d)) vsc,
          hr_memories = filter (\<lambda>r. memory_key r \<in> set hits) (st_memories st),
          hr_chunks = filter (\<lambda>c. chunk_key c \<in> set hits) (st_chunks st)\<rparr>)"

text \<open>A map collected from rows: of two with one key the later stands.\<close>

definition keyed :: "('r \<Rightarrow> 'k) \<Rightarrow> 'r list \<Rightarrow> 'k \<rightharpoonup> 'r" where
  "keyed key rows = map_of (rev (map (\<lambda>r. (key r, r)) rows))"

text \<open>Each row is taken out of its map as it is used, so a row scored twice is missing the second time.\<close>

definition missing_hit :: store_error where
  "missing_hit = UnexpectedResponse (lit ''the search scored a row it did not return'')"

fun assemble ::
  "((str \<times> str) \<times> real) list \<Rightarrow> (str \<rightharpoonup> mem_row) \<Rightarrow> (str \<rightharpoonup> chunk_row) \<Rightarrow> ((str \<times> str) \<rightharpoonup> real) \<Rightarrow>
   store_error + candidate list" where
  "assemble [] mems chunks sims = Inr []"
| "assemble (((table, i), rrf) # scored) mems chunks sims =
     (let similarity = sims (table, i) in
      if table = memory_table then
        (case mems i of
           None \<Rightarrow> Inl missing_hit
         | Some r \<Rightarrow>
             and_then (into_record r) (\<lambda>m.
             and_then (assemble scored (mems(i := None)) chunks sims) (\<lambda>rest.
             Inr (\<lparr>cd_rrf = rrf, cd_similarity = similarity, cd_hit = HitMemory m\<rparr> # rest))))
      else if table = episode_chunk_table then
        (case chunks i of
           None \<Rightarrow> Inl missing_hit
         | Some c \<Rightarrow>
             and_then (into_chunk c) (\<lambda>k.
             and_then (assemble scored mems (chunks(i := None)) sims) (\<lambda>rest.
             Inr (\<lparr>cd_rrf = rrf, cd_similarity = similarity, cd_hit = HitChunk k\<rparr> # rest))))
      else Inl missing_hit)"

definition search_hybrid ::
  "retrieval \<Rightarrow> (uchar \<Rightarrow> bool) \<Rightarrow> (str \<Rightarrow> str) \<Rightarrow> engine \<Rightarrow> store \<Rightarrow> search \<Rightarrow>
   store_error + candidate list" where
  "search_hybrid R alnum lower E st q =
     (let ts = terms alnum lower (case s_text q of None \<Rightarrow> [] | Some s \<Rightarrow> s) in
      if ts = [] \<and> s_vector q = None then Inr []
      else
        let row = search_query R E st q ts in
        assemble (hr_scored row) (keyed m_id (hr_memories row)) (keyed c_id (hr_chunks row))
          (map_of (rev (map (\<lambda>(k, d). (k, similarity_from_distance d)) (hr_nearest row)))))"

section \<open>Lookups\<close>

text \<open>
  \<open>ORDER BY strength DESC, id DESC\<close>: the reverse of the ascending order on both, since ids do not
  repeat.
\<close>

definition by_strength :: "mem_row list \<Rightarrow> mem_row list" where
  "by_strength rows = rev (sort_key (\<lambda>r. (m_strength r, m_id r)) rows)"

definition direct_lookup :: "engine \<Rightarrow> store \<Rightarrow> lookup \<Rightarrow> store_error + memory_record list" where
  "direct_lookup E st q =
     collect_results into_record
       (take (clamp_limit (l_limit q))
         (by_strength (filter (memory_where E (l_spaces q) (l_filters q) (l_liveness q))
           (st_memories st))))"

definition count_matching :: "engine \<Rightarrow> store \<Rightarrow> lookup \<Rightarrow> nat" where
  "count_matching E st q =
     length (filter (memory_where E (l_spaces q) (l_filters q) (l_liveness q)) (st_memories st))"

section \<open>Near neighbours and vectors\<close>

definition neighbour_of :: "mem_row \<times> real \<Rightarrow> store_error + neighbour" where
  "neighbour_of = (\<lambda>(r, d).
     map_ok (\<lambda>i. \<lparr>nb_id = i, nb_content = m_content r, nb_similarity = similarity_from_distance d\<rparr>)
       (map_err MalformedRow (memory_id_new (m_id r))))"

definition nearest_one ::
  "retrieval \<Rightarrow> store \<Rightarrow> space_name \<Rightarrow> flt list \<Rightarrow> (mem_row \<times> real) list" where
  "nearest_one R st space v =
     take neighbours (sort_key snd
       (filter (\<lambda>(r, d). m_space r = space_as_str space \<and> m_invalid_at r = None)
         (rt_knn_memory R near_dup_probe v st)))"

definition nearest_live ::
  "retrieval \<Rightarrow> store \<Rightarrow> space_name \<Rightarrow> flt list list \<Rightarrow> store_error + neighbour list list" where
  "nearest_live R st space vs =
     collect_results (\<lambda>v. collect_results neighbour_of (nearest_one R st space v)) vs"

text \<open>The record and the vector of one selection, paired by id.\<close>

fun pair_vectors ::
  "mem_row list \<Rightarrow> (str \<rightharpoonup> flt list) \<Rightarrow> store_error + embedded list" where
  "pair_vectors [] vectors = Inr []"
| "pair_vectors (r # rows) vectors =
     (case vectors (m_id r) of
        None \<Rightarrow> Inl (UnexpectedResponse (lit ''a selected memory came back without its vector''))
      | Some e \<Rightarrow>
          and_then (into_record r) (\<lambda>m.
          and_then (pair_vectors rows (vectors(m_id r := None))) (\<lambda>rest.
          Inr (\<lparr>em_memory = m, em_embedding = e\<rparr> # rest))))"

definition live_vectors :: "store \<Rightarrow> space_name \<Rightarrow> nat \<Rightarrow> store_error + embedded list" where
  "live_vectors st space limit =
     (let ids = take (clamp_limit limit) (by_strength (filter (\<lambda>r. m_space r = space_as_str space \<and>
                  m_invalid_at r = None \<and> m_embedding r \<noteq> None) (st_memories st)))
      in pair_vectors ids (map_of (rev (map (\<lambda>r. (m_id r, the (m_embedding r))) ids))))"

definition stale_row :: "engine \<Rightarrow> space_name \<Rightarrow> nat \<Rightarrow> real \<Rightarrow> mem_row \<Rightarrow> bool" where
  "stale_row E space min_count horizon r \<longleftrightarrow>
     m_space r = space_as_str space \<and> m_decay r = decay_class_as_str prune_class \<and>
     m_invalid_at r = None \<and> int min_count \<le> m_access_count r \<and>
     m_last_accessed r + 1000000000 * \<lfloor>horizon + 1 / 2\<rfloor> < en_now E"

definition prune_horizon_secs :: "real option" where
  "prune_horizon_secs = decay_horizon_secs prune_class prune_retention"

definition stale_contexts ::
  "engine \<Rightarrow> store \<Rightarrow> space_name \<Rightarrow> stale_params \<Rightarrow> store_error + memory_record list" where
  "stale_contexts E st space params =
     (case prune_horizon_secs of
        None \<Rightarrow> Inr []
      | Some horizon \<Rightarrow>
          collect_results into_record
            (take (clamp_limit (sp_limit params))
              (sort_key m_last_accessed
                (filter (stale_row E space (sp_min_access_count params) horizon) (st_memories st)))))"

section \<open>History\<close>

text \<open>
  The walk follows a link from the target and gathers the ids it passes through; which link is the
  first argument of \<open>rt_walk\<close>. A link to a row that is gone stays in the list of ids.
\<close>

definition supersedes_of :: "store \<Rightarrow> str \<Rightarrow> str list" where
  "supersedes_of st i =
     (case find_row (st_memories st) i of None \<Rightarrow> [] | Some r \<Rightarrow> m_supersedes r)"

definition successor_of :: "store \<Rightarrow> str \<Rightarrow> str list" where
  "successor_of st i =
     (case find_row (st_memories st) i of
        None \<Rightarrow> []
      | Some r \<Rightarrow> (case m_superseded_by r of None \<Rightarrow> [] | Some j \<Rightarrow> [j]))"

definition chain_ids :: "retrieval \<Rightarrow> store \<Rightarrow> str \<Rightarrow> str list" where
  "chain_ids R st i =
     rev (rt_walk R (supersedes_of st) i) @ [i] @ rt_walk R (successor_of st) i"

fun take_rows ::
  "str list \<Rightarrow> (str \<rightharpoonup> mem_row) \<Rightarrow> store_error + memory_record list" where
  "take_rows [] rows = Inr []"
| "take_rows (i # ids) rows =
     (case rows i of
        None \<Rightarrow> Inl (UnexpectedResponse (lit ''the walk named a link it did not return''))
      | Some r \<Rightarrow>
          and_then (into_record r) (\<lambda>m.
          and_then (take_rows ids (rows(i := None))) (\<lambda>ms. Inr (m # ms))))"

definition history_chain ::
  "retrieval \<Rightarrow> store \<Rightarrow> space_name \<Rightarrow> memory_id \<Rightarrow> store_error + memory_record list" where
  "history_chain R st space i =
     and_then (ensure_memories_exist st space [i]) (\<lambda>_.
       let ids = chain_ids R st (memory_id_str i) in
       take_rows ids (keyed m_id (filter (\<lambda>r. m_id r \<in> set ids) (st_memories st))))"

section \<open>Episodes and documents\<close>

text \<open>A memory cites a row of \<open>episode\<close> through its source or a provenance link.\<close>

definition source_cites :: "mem_row \<Rightarrow> str \<Rightarrow> bool" where
  "source_cites r e \<longleftrightarrow> sr_ref (m_source r) = Some (RefRecord episode_table e)"

definition derivation_cites :: "mem_row \<Rightarrow> str \<Rightarrow> bool" where
  "derivation_cites r e \<longleftrightarrow> \<lparr>dr_table = episode_table, dr_id = e\<rparr> \<in> set (m_derived_from r)"

definition episode_by_id :: "store \<Rightarrow> space_name \<Rightarrow> str \<Rightarrow> ep_row option" where
  "episode_by_id st space i =
     find (\<lambda>e. e_id e = i \<and> e_space e = space_as_str space) (st_episodes st)"

definition episode_read :: "store \<Rightarrow> space_name \<Rightarrow> episode_id \<Rightarrow> store_error + episode_detail" where
  "episode_read st space i =
     (case episode_by_id st space (episode_id_str i) of
        None \<Rightarrow> Inl (UnknownEpisode space i)
      | Some e \<Rightarrow>
          and_then (into_episode e) (\<lambda>ep.
          and_then (collect_results into_chunk
            (sort_key c_position (filter (\<lambda>c. c_episode c = episode_id_str i) (st_chunks st)))) (\<lambda>cs.
          and_then (collect_results into_record
            (sort_key m_created_at (filter (\<lambda>r. m_space r = space_as_str space \<and>
               (source_cites r (episode_id_str i) \<or> derivation_cites r (episode_id_str i)))
               (st_memories st)))) (\<lambda>ms.
          Inr \<lparr>ed_episode = ep, ed_chunks = cs, ed_derived = ms\<rparr>))))"

definition episode_of_chunk ::
  "store \<Rightarrow> space_name \<Rightarrow> chunk_id \<Rightarrow> store_error + episode_id option" where
  "episode_of_chunk st space i =
     map_err MalformedRow (transpose_result episode_id_new
       (map_option c_episode
         (find (\<lambda>c. c_id c = chunk_id_str i \<and> c_space c = space_as_str space) (st_chunks st))))"

definition title_rows :: "store \<Rightarrow> space_name \<Rightarrow> str \<Rightarrow> ep_row list" where
  "title_rows st space title =
     sort_key (\<lambda>e. - e_created_at e)
       (filter (\<lambda>e. e_space e = space_as_str space \<and> e_title e = Some title) (st_episodes st))"

definition documents_by_title :: "store \<Rightarrow> space_name \<Rightarrow> str \<Rightarrow> store_error + episode list" where
  "documents_by_title st space title = collect_results into_episode (title_rows st space title)"

definition document_rows :: "store \<Rightarrow> space_name \<Rightarrow> document_filter \<Rightarrow> ep_row list" where
  "document_rows st space f =
     take (clamp_limit (df_limit f)) (sort_key (\<lambda>e. - e_created_at e)
       (filter (\<lambda>e. e_space e = space_as_str space \<and> e_doc_kind e \<noteq> None \<and>
          (df_kinds f = [] \<or> the (e_doc_kind e) \<in> set (map doc_kind_as_str (df_kinds f))) \<and>
          (df_tags f = [] \<or>
            (case e_tags e of None \<Rightarrow> False | Some ts \<Rightarrow> contains_any ts (df_tags f))))
        (st_episodes st)))"

text \<open>
  The citation pairs of a page, folded into a set: \<open>by_source\<close> names the page's own rows only,
  \<open>by_derivation\<close> every link of a memory that has one of them.
\<close>

definition live_in :: "space_name \<Rightarrow> mem_row \<Rightarrow> bool" where
  "live_in space r \<longleftrightarrow> m_space r = space_as_str space \<and> m_invalid_at r = None"

definition citer_pairs :: "store \<Rightarrow> space_name \<Rightarrow> str list \<Rightarrow> (str \<times> str) list" where
  "citer_pairs st space ids =
     (let rows = filter (live_in space) (st_memories st);
          by_source = concat (map (\<lambda>r.
            case sr_ref (m_source r) of
              Some (RefRecord t e) \<Rightarrow>
                if sr_kind (m_source r) = lit ''episode'' \<and> t = episode_table \<and> e \<in> set ids
                then [(m_id r, e)] else []
            | _ \<Rightarrow> []) rows);
          by_derivation = concat (map (\<lambda>r.
            if list_ex (\<lambda>e. derivation_cites r e) ids
            then map (\<lambda>d. (m_id r, dr_id d)) (m_derived_from r) else []) rows)
      in remdups (by_source @ by_derivation))"

definition documents ::
  "store \<Rightarrow> space_name \<Rightarrow> document_filter \<Rightarrow> store_error + document_summary list" where
  "documents st space f =
     (let docs = document_rows st space f; pairs = citer_pairs st space (map e_id docs) in
      collect_results (\<lambda>d.
        map_ok (\<lambda>e. \<lparr>ds_episode = e,
                     ds_cited = length (filter (\<lambda>(m, doc). doc = e_id d) pairs)\<rparr>)
          (into_episode d)) docs)"

definition document_citers ::
  "store \<Rightarrow> space_name \<Rightarrow> episode_id \<Rightarrow> store_error + memory_record list" where
  "document_citers st space i =
     collect_results into_record (sort_key m_created_at
       (filter (\<lambda>r. live_in space r \<and>
          (source_cites r (episode_id_str i) \<or> derivation_cites r (episode_id_str i)))
         (st_memories st)))"

definition header_of :: "ep_row \<Rightarrow> store_error + document_header" where
  "header_of e =
     and_then (map_err MalformedRow (episode_id_new (e_id e))) (\<lambda>i.
     case e_title e of
       None \<Rightarrow> Inl (UnexpectedResponse (lit ''a document without a title''))
     | Some t \<Rightarrow>
       (case e_doc_kind e of
          None \<Rightarrow> Inl (UnexpectedResponse (lit ''a document without a kind''))
        | Some k \<Rightarrow>
            and_then (map_err MalformedRow (doc_kind_from_str k)) (\<lambda>k'.
            Inr \<lparr>dh_id = i, dh_title = t, dh_doc_kind = k'\<rparr>)))"

definition document_headers ::
  "store \<Rightarrow> space_name \<Rightarrow> episode_id list \<Rightarrow> store_error + document_header list" where
  "document_headers st space ids =
     (if ids = [] then Inr []
      else collect_results header_of
        (filter (\<lambda>e. e_space e = space_as_str space \<and> e_doc_kind e \<noteq> None \<and>
           e_id e \<in> set (map episode_id_str ids)) (st_episodes st)))"

definition cited_live :: "store \<Rightarrow> space_name \<Rightarrow> str \<Rightarrow> bool" where
  "cited_live st space e \<longleftrightarrow>
     list_ex (\<lambda>r. live_in space r \<and> sr_kind (m_source r) = lit ''episode'' \<and> source_cites r e)
       (st_memories st) \<or>
     list_ex (\<lambda>r. live_in space r \<and> derivation_cites r e) (st_memories st)"

definition orphan_documents ::
  "engine \<Rightarrow> store \<Rightarrow> space_name \<Rightarrow> nat \<Rightarrow> store_error + episode list" where
  "orphan_documents E st space grace_days =
     collect_results into_episode (sort_key (\<lambda>e. - e_created_at e)
       (filter (\<lambda>e. e_space e = space_as_str space \<and> e_doc_kind e \<noteq> None \<and>
          e_created_at e < en_now E - int grace_days * 86400000000000 \<and>
          \<not> cited_live st space (e_id e)) (st_episodes st)))"

text \<open>\<open>GROUP BY title\<close>, the threshold on the groups, most versions first and latest first.\<close>

definition churn_rows :: "store \<Rightarrow> space_name \<Rightarrow> nat \<Rightarrow> (str \<times> nat \<times> timestamp \<times> timestamp) list" where
  "churn_rows st space max_versions =
     (let docs = filter (\<lambda>e. e_space e = space_as_str space \<and> e_doc_kind e \<noteq> None \<and>
                   e_title e \<noteq> None) (st_episodes st);
          group = (\<lambda>t. filter (\<lambda>e. e_title e = Some t) docs);
          rows = map (\<lambda>t. (t, length (group t), Min (e_created_at ` set (group t)),
                   Max (e_created_at ` set (group t)))) (remdups (map (the \<circ> e_title) docs))
      in sort_key (\<lambda>(t, n, first, latest). (- int n, - latest))
           (filter (\<lambda>(t, n, first, latest). n > max_versions) rows))"

fun churn_of ::
  "store \<Rightarrow> space_name \<Rightarrow> (str \<times> nat \<times> timestamp \<times> timestamp) list \<Rightarrow>
   store_error + document_churn list" where
  "churn_of st space [] = Inr []"
| "churn_of st space ((title, n, first, latest) # rows) =
     and_then (documents_by_title st space title) (\<lambda>versions.
       case versions of
         [] \<Rightarrow> churn_of st space rows
       | newest # _ \<Rightarrow>
           (case ep_doc_kind newest of
              None \<Rightarrow> Inl (UnexpectedResponse (lit ''a document without a kind''))
            | Some k \<Rightarrow>
                if n \<ge> 2 ^ 32 then Inl (UnexpectedResponse (lit ''a negative version count''))
                else and_then (churn_of st space rows) (\<lambda>rest.
                  Inr (\<lparr>dc_title = title, dc_doc_kind = k, dc_versions = n, dc_newest = ep_id newest,
                        dc_first_at = first, dc_latest_at = latest\<rparr> # rest))))"

definition churning_documents ::
  "store \<Rightarrow> space_name \<Rightarrow> nat \<Rightarrow> store_error + document_churn list" where
  "churning_documents st space max_versions =
     churn_of st space (churn_rows st space max_versions)"

section \<open>Resolving ids, spaces, counts\<close>

definition locate ::
  "store \<Rightarrow> space_name list \<Rightarrow> str list \<Rightarrow> store_error + derivation option list" where
  "locate st spaces ids =
     (let searched = map space_as_str spaces;
          mems = map m_id (filter (\<lambda>r. m_space r \<in> set searched \<and> m_id r \<in> set ids) (st_memories st));
          eps = map e_id (filter (\<lambda>e. e_space e \<in> set searched \<and> e_id e \<in> set ids) (st_episodes st))
      in collect_results (\<lambda>i.
           if i \<in> set mems
           then map_err MalformedRow (map_ok (Some \<circ> DMemory) (memory_id_new i))
           else if i \<in> set eps
           then map_err MalformedRow (map_ok (Some \<circ> DEpisode) (episode_id_new i))
           else Inr None) ids)"

definition spaces :: "store \<Rightarrow> store_error + space_name list" where
  "spaces st = collect_results (\<lambda>n. map_err MalformedRow (space_name_new n)) (sort (st_spaces st))"

definition stats :: "store \<Rightarrow> space_name \<Rightarrow> store_error + space_stats" where
  "stats st space =
     (let s = space_as_str space;
          mems = filter (\<lambda>r. m_space r = s) (st_memories st);
          lives = filter (\<lambda>r. m_invalid_at r = None) mems;
          eps = filter (\<lambda>e. e_space e = s) (st_episodes st)
      in map_ok (\<lambda>by_kind.
           \<lparr>ss_space = space, ss_memories = length mems, ss_live = length lives,
            ss_live_by_kind = by_kind, ss_episodes = length eps,
            ss_chunks = length (filter (\<lambda>c. c_space c = s) (st_chunks st)),
            ss_documents = length (filter (\<lambda>e. e_doc_kind e \<noteq> None) eps)\<rparr>)
           (collect_results (\<lambda>k.
              map_ok (\<lambda>kd. (kd, length (filter (\<lambda>r. m_kind r = k) lives)))
                (map_err MalformedRow (kind_from_str k)))
             (sort (remdups (map m_kind lives)))))"

section \<open>Reading a store in order\<close>

lemma space_as_str_inject [simp]: "space_as_str a = space_as_str b \<longleftrightarrow> a = b"
  by (cases a; cases b) simp

lemma memory_id_str_inject [simp]: "memory_id_str a = memory_id_str b \<longleftrightarrow> a = b"
  by (cases a; cases b) simp

lemma kind_as_str_inject: "kind_as_str a = kind_as_str b \<Longrightarrow> a = b"
  by (rule kind.render_inj) simp_all

lemma into_record_fields:
  assumes "into_record r = Inr m"
  shows "m_id r = memory_id_str (mr_id m)" "m_space r = space_as_str (mr_space m)"
    "m_kind r = kind_as_str (mr_kind m)" "m_strength r = mr_strength m"
    "m_valid_from r = mr_valid_from m" "m_invalid_at r = mr_invalid_at m"
    "m_content r = mr_content m" "m_entities r = mr_entities m" "m_tags r = mr_tags m"
  using assms
  by (auto simp: into_record_def kind_parse_iff space_name_new_Inr)

lemma store_ok_readable:
  "store_ok st \<Longrightarrow> r \<in> set (st_memories st) \<Longrightarrow> \<exists>m. into_record r = Inr m"
  by (auto simp: store_ok_def list_all_iff readable_def)

lemma store_ok_chunk_readable:
  "store_ok st \<Longrightarrow> c \<in> set (st_chunks st) \<Longrightarrow> \<exists>k. into_chunk c = Inr k"
  by (auto simp: store_ok_def list_all_iff chunk_readable_def)

text \<open>Where every row parses, reading a list of them is total.\<close>

lemma collect_total:
  "(\<And>x. x \<in> set xs \<Longrightarrow> \<exists>y. f x = Inr y) \<Longrightarrow>
   \<exists>ys. collect_results f xs = Inr ys \<and> list_all2 (\<lambda>x y. f x = Inr y) xs ys"
proof (induction xs)
  case (Cons x xs)
  from Cons.prems obtain y where "f x = Inr y" by auto
  moreover from Cons obtain ys where "collect_results f xs = Inr ys"
    "list_all2 (\<lambda>x y. f x = Inr y) xs ys" by auto
  ultimately show ?case by auto
qed simp

lemma into_chunk_fields:
  "into_chunk c = Inr k \<Longrightarrow> c_id c = chunk_id_str (ec_id k)"
  by (auto simp: into_chunk_def chunk_id_new_def record_id_new_def split: if_splits)

lemma list_all2_map_eq:
  assumes "list_all2 R xs ys" and "\<And>x y. R x y \<Longrightarrow> f x = g y"
  shows "map f xs = map g ys"
  using assms(1) by (induction rule: list_all2_induct) (simp_all add: assms(2))

lemma list_all2_all:
  assumes "list_all2 R xs ys" and "\<And>x y. x \<in> set xs \<Longrightarrow> R x y \<Longrightarrow> P y"
  shows "list_all P ys"
  using assms by (induction rule: list_all2_induct) auto

section \<open>Order by strength\<close>

lemma by_strength_simps [simp]:
  "set (by_strength rows) = set rows" "length (by_strength rows) = length rows"
  "distinct (map m_id (by_strength rows)) = distinct (map m_id rows)"
  by (simp_all add: by_strength_def rev_map [symmetric] distinct_map)

lemma sorted_by_strength: "sorted_wrt (\<lambda>a b. m_strength b \<le> m_strength a) (by_strength rows)"
proof -
  have "sorted (map (\<lambda>r. (m_strength r, m_id r)) (sort_key (\<lambda>r. (m_strength r, m_id r)) rows))"
    by simp
  then have "sorted_wrt (\<lambda>a b. m_strength a \<le> m_strength b)
      (sort_key (\<lambda>r. (m_strength r, m_id r)) rows)"
    unfolding sorted_map by (rule sorted_wrt_mono_rel [rotated]) (auto simp: less_eq_prod_def)
  then show ?thesis by (simp add: by_strength_def sorted_wrt_rev)
qed

section \<open>Joining the fused order with its rows\<close>

fun hit_key :: "hit \<Rightarrow> str \<times> str" where
  "hit_key (HitMemory m) = (memory_table, memory_id_str (mr_id m))"
| "hit_key (HitChunk c) = (episode_chunk_table, chunk_id_str (ec_id c))"

lemma tables_differ [simp]: "memory_table \<noteq> episode_chunk_table" "episode_chunk_table \<noteq> memory_table"
  by (simp_all add: memory_table_def episode_chunk_table_def lit_inject)

definition resolves ::
  "(str \<rightharpoonup> mem_row) \<Rightarrow> (str \<rightharpoonup> chunk_row) \<Rightarrow> str \<times> str \<Rightarrow> bool" where
  "resolves mems chunks = (\<lambda>(table, i).
     (table = memory_table \<and> (\<exists>r m. mems i = Some r \<and> m_id r = i \<and> into_record r = Inr m)) \<or>
     (table = episode_chunk_table \<and>
        (\<exists>c k. chunks i = Some c \<and> c_id c = i \<and> into_chunk c = Inr k)))"

lemma assemble_total:
  assumes "distinct (map fst scored)" and "\<And>k. k \<in> fst ` set scored \<Longrightarrow> resolves mems chunks k"
  shows "\<exists>cs. assemble scored mems chunks sims = Inr cs \<and>
    map (\<lambda>c. (hit_key (cd_hit c), cd_rrf c)) cs = scored"
  using assms
proof (induction scored arbitrary: mems chunks)
  case (Cons s scored)
  obtain table i rrf where s: "s = ((table, i), rrf)" by (cases s) auto
  have here: "resolves mems chunks (table, i)" using Cons.prems(2) s by simp
  have new: "(table, i) \<notin> fst ` set scored" using Cons.prems(1) s by simp
  show ?case
  proof (cases "table = memory_table")
    case True
    with here obtain r m where r: "mems i = Some r" "m_id r = i" "into_record r = Inr m"
      by (auto simp: resolves_def)
    have "\<exists>cs. assemble scored (mems(i := None)) chunks sims = Inr cs \<and>
        map (\<lambda>c. (hit_key (cd_hit c), cd_rrf c)) cs = scored"
    proof (rule Cons.IH)
      fix k
      assume k: "k \<in> fst ` set scored"
      then have "resolves mems chunks k" using Cons.prems(2) by simp
      moreover have "k \<noteq> (table, i)" using k new by blast
      ultimately show "resolves (mems(i := None)) chunks k"
        using True by (cases k) (auto simp: resolves_def)
    qed (use Cons.prems(1) s in simp)
    with r True s into_record_fields(1) [OF r(3)] show ?thesis by (auto simp: Let_def)
  next
    case False
    with here obtain c k where c: "table = episode_chunk_table" "chunks i = Some c" "c_id c = i"
      "into_chunk c = Inr k"
      by (auto simp: resolves_def)
    have "\<exists>cs. assemble scored mems (chunks(i := None)) sims = Inr cs \<and>
        map (\<lambda>c. (hit_key (cd_hit c), cd_rrf c)) cs = scored"
    proof (rule Cons.IH)
      fix k
      assume k: "k \<in> fst ` set scored"
      then have "resolves mems chunks k" using Cons.prems(2) by simp
      moreover have "k \<noteq> (table, i)" using k new by blast
      ultimately show "resolves mems (chunks(i := None)) k"
        using c(1) by (cases k) (auto simp: resolves_def)
    qed (use Cons.prems(1) s in simp)
    with c s into_chunk_fields [OF c(4)] show ?thesis by (auto simp: Let_def)
  qed
qed simp

lemma keyed_Some:
  assumes "distinct (map key rows)" and "r \<in> set rows"
  shows "keyed key rows (key r) = Some r"
proof -
  have "distinct (map fst (rev (map (\<lambda>r. (key r, r)) rows)))"
    using assms(1) by (simp add: rev_map [symmetric] o_def)
  then show ?thesis
    unfolding keyed_def by (rule map_of_is_SomeI) (use assms(2) in auto)
qed

text \<open>
  What the engine documents of fusion and of the scan: an id is fused once and comes from an arm, and
  the scan draws rows of its table.
\<close>

definition retrieval_ok :: "retrieval \<Rightarrow> bool" where
  "retrieval_ok R \<longleftrightarrow>
     (\<forall>lists pool k. distinct (map fst (rt_rrf R lists pool k)) \<and>
        fst ` set (rt_rrf R lists pool k) \<subseteq> \<Union> (set ` set lists)) \<and>
     (\<forall>n v st. fst ` set (rt_knn_memory R n v st) \<subseteq> set (st_memories st) \<and>
        fst ` set (rt_knn_chunk R n v st) \<subseteq> set (st_chunks st))"

lemma text_arm_sub: "set (text_arm score ts P pool rows) \<subseteq> set rows"
  unfolding text_arm_def by (auto dest!: in_set_takeD)

lemma vector_arm_sub: "fst ` set (vector_arm P pool drawn) \<subseteq> fst ` set drawn"
  unfolding vector_arm_def by (auto dest!: in_set_takeD)

lemma scored_from_tables:
  assumes "retrieval_ok R"
  shows "distinct (map fst (hr_scored (search_query R E st q ts)))"
    and "fst ` set (hr_scored (search_query R E st q ts))
      \<subseteq> memory_key ` set (st_memories st) \<union> chunk_key ` set (st_chunks st)"
proof -
  have knn: "fst ` set (rt_knn_memory R n v s) \<subseteq> set (st_memories s)"
    "fst ` set (rt_knn_chunk R n v s) \<subseteq> set (st_chunks s)" for n v s
    using assms by (simp_all add: retrieval_ok_def)
  obtain lists pool where
    hr: "hr_scored (search_query R E st q ts) = rt_rrf R lists pool rrf_k"
    and lists: "\<Union> (set ` set lists) \<subseteq> memory_key ` set (st_memories st) \<union> chunk_key ` set (st_chunks st)"
  proof
    let ?pool = "clamp_limit (s_pool q)"
    let ?mem = "memory_where E (s_spaces q) (s_filters q) (s_liveness q)"
    let ?chk = "chunk_where E (s_spaces q) (s_liveness q)"
    let ?ft = "map memory_key (text_arm (rt_score_memory R) ts ?mem ?pool (st_memories st))"
    let ?ftc = "map chunk_key (text_arm (rt_score_chunk R) ts ?chk ?pool (st_chunks st))"
    let ?vs = "\<lambda>v. map (\<lambda>(r, d). memory_key r)
      (vector_arm ?mem ?pool (rt_knn_memory R (?pool * over_fetch) v st))"
    let ?vsc = "\<lambda>v. map (\<lambda>(c, d). chunk_key c)
      (vector_arm ?chk ?pool (rt_knn_chunk R (?pool * over_fetch) v st))"
    let ?lists = "(if ts \<noteq> [] then [?ft] else []) @
      (case s_vector q of None \<Rightarrow> [] | Some v \<Rightarrow> [?vs v]) @
      (if s_episodes q \<and> ts \<noteq> [] then [?ftc] else []) @
      (if s_episodes q then (case s_vector q of None \<Rightarrow> [] | Some v \<Rightarrow> [?vsc v]) else [])"
    show "hr_scored (search_query R E st q ts) = rt_rrf R ?lists ?pool rrf_k"
      by (cases "s_vector q") (simp_all add: search_query_def Let_def)
    have 1: "set ?ft \<subseteq> memory_key ` set (st_memories st)" "set ?ftc \<subseteq> chunk_key ` set (st_chunks st)"
      unfolding set_map by (intro image_mono text_arm_sub)+
    have 2: "set (?vs v) \<subseteq> memory_key ` set (st_memories st)" for v
    proof -
      have "fst ` set (vector_arm ?mem ?pool (rt_knn_memory R (?pool * over_fetch) v st))
          \<subseteq> set (st_memories st)"
        by (rule order_trans [OF vector_arm_sub knn(1)])
      then show ?thesis by force
    qed
    have 3: "set (?vsc v) \<subseteq> chunk_key ` set (st_chunks st)" for v
    proof -
      have "fst ` set (vector_arm ?chk ?pool (rt_knn_chunk R (?pool * over_fetch) v st))
          \<subseteq> set (st_chunks st)"
        by (rule order_trans [OF vector_arm_sub knn(2)])
      then show ?thesis by force
    qed
    show "\<Union> (set ` set ?lists) \<subseteq> memory_key ` set (st_memories st) \<union> chunk_key ` set (st_chunks st)"
    proof -
      let ?U = "memory_key ` set (st_memories st) \<union> chunk_key ` set (st_chunks st)"
      have "\<forall>l \<in> set (if ts \<noteq> [] then [?ft] else []). set l \<subseteq> ?U"
        using le_supI1 [OF 1(1)] by (cases "ts = []") simp_all
      moreover have "\<forall>l \<in> set (case s_vector q of None \<Rightarrow> [] | Some v \<Rightarrow> [?vs v]). set l \<subseteq> ?U"
        using le_supI1 [OF 2] by (cases "s_vector q") simp_all
      moreover have "\<forall>l \<in> set (if s_episodes q \<and> ts \<noteq> [] then [?ftc] else []). set l \<subseteq> ?U"
        using le_supI2 [OF 1(2)] by (cases "s_episodes q"; cases "ts = []") simp_all
      moreover have "\<forall>l \<in> set (if s_episodes q then (case s_vector q of None \<Rightarrow> [] | Some v \<Rightarrow> [?vsc v])
          else []). set l \<subseteq> ?U"
        using le_supI2 [OF 3] by (cases "s_vector q"; cases "s_episodes q") simp_all
      ultimately have "\<forall>l \<in> set ?lists. set l \<subseteq> ?U"
        by (simp only: set_append ball_Un)
      then show ?thesis by (simp only: UN_subset_iff)
    qed
  qed
  show "distinct (map fst (hr_scored (search_query R E st q ts)))"
    using assms by (simp add: hr retrieval_ok_def)
  show "fst ` set (hr_scored (search_query R E st q ts))
      \<subseteq> memory_key ` set (st_memories st) \<union> chunk_key ` set (st_chunks st)"
    unfolding hr by (rule order_trans [OF _ lists]) (use assms in \<open>simp add: retrieval_ok_def\<close>)
qed

lemma search_joins:
  assumes "store_ok st" and "retrieval_ok R"
  shows "\<exists>cs. assemble (hr_scored (search_query R E st q ts))
      (keyed m_id (hr_memories (search_query R E st q ts)))
      (keyed c_id (hr_chunks (search_query R E st q ts))) sims = Inr cs \<and>
    map (\<lambda>c. (hit_key (cd_hit c), cd_rrf c)) cs = hr_scored (search_query R E st q ts)"
proof (rule assemble_total [OF scored_from_tables(1) [OF assms(2)]])
  let ?row = "search_query R E st q ts"
  let ?hits = "fst ` set (hr_scored ?row)"
  have rows: "hr_memories ?row = filter (\<lambda>r. memory_key r \<in> ?hits) (st_memories st)"
    "hr_chunks ?row = filter (\<lambda>c. chunk_key c \<in> ?hits) (st_chunks st)"
    by (simp_all add: search_query_def Let_def)
  have d: "distinct (map m_id (hr_memories ?row))" "distinct (map c_id (hr_chunks ?row))"
    using assms(1) unfolding rows by (simp_all add: store_ok_def rows_ok_def distinct_map_filter)
  fix k
  assume k: "k \<in> ?hits"
  with scored_from_tables(2) [OF assms(2)] have
    "k \<in> memory_key ` set (st_memories st) \<union> chunk_key ` set (st_chunks st)" by blast
  then show "resolves (keyed m_id (hr_memories ?row)) (keyed c_id (hr_chunks ?row)) k"
  proof
    assume "k \<in> memory_key ` set (st_memories st)"
    then obtain r where r: "r \<in> set (st_memories st)" "k = memory_key r" by blast
    then have "keyed m_id (hr_memories ?row) (m_id r) = Some r"
      using k by (intro keyed_Some [OF d(1)]) (simp add: rows)
    with r store_ok_readable [OF assms(1) r(1)] show ?thesis
      by (simp add: resolves_def memory_key_def)
  next
    assume "k \<in> chunk_key ` set (st_chunks st)"
    then obtain c where c: "c \<in> set (st_chunks st)" "k = chunk_key c" by blast
    then have "keyed c_id (hr_chunks ?row) (c_id c) = Some c"
      using k by (intro keyed_Some [OF d(2)]) (simp add: rows)
    with c store_ok_chunk_readable [OF assms(1) c(1)] show ?thesis
      by (simp add: resolves_def chunk_key_def)
  qed
qed

section \<open>Terms\<close>

lemma split_on_sound:
  assumes "list_all (\<lambda>c. \<not> sep c) w" and "x \<in> set (split_on sep w s)"
  shows "list_all (\<lambda>c. \<not> sep c) x"
  using assms by (induction sep w s rule: split_on.induct) (auto split: if_splits)

lemma terms_loop_sound:
  assumes "distinct acc" and "length acc < max_terms"
  shows "distinct (terms_loop lower pieces acc) \<and> length (terms_loop lower pieces acc) \<le> max_terms
    \<and> set (terms_loop lower pieces acc) \<subseteq> set acc \<union> lower ` {p \<in> set pieces. p \<noteq> []}"
  using assms
proof (induction pieces arbitrary: acc)
  case (Cons p pieces)
  show ?case
  proof (cases "p = []")
    case True
    with Cons show ?thesis by auto
  next
    case False
    let ?acc = "if lower p \<in> set acc then acc else acc @ [lower p]"
    have d: "distinct ?acc" "set ?acc \<subseteq> set acc \<union> lower ` {q \<in> set (p # pieces). q \<noteq> []}"
      using Cons.prems(1) False by auto
    show ?thesis
    proof (cases "length ?acc = max_terms")
      case True
      with False d show ?thesis by (simp add: Let_def)
    next
      case more: False
      then have "length ?acc < max_terms" using Cons.prems(2) by auto
      note ih = Cons.IH [OF d(1) this]
      have "terms_loop lower (p # pieces) acc = terms_loop lower pieces ?acc"
        using False more by (simp add: Let_def)
      moreover have "set (terms_loop lower pieces ?acc)
          \<subseteq> set acc \<union> lower ` {q \<in> set (p # pieces). q \<noteq> []}"
        using ih d(2) by auto
      ultimately show ?thesis using ih by simp
    qed
  qed
qed simp

section \<open>A merge that the walk cannot see\<close>

text \<open>
  The claim that was asserted again is superseded by re-sending the words of the memory that is
  already live: the live memory takes its place, and its own \<open>supersedes\<close> column stays as it was.
\<close>

definition demo_merge :: batch where
  "demo_merge = demo_batch [(new_memory_new Fact (lit ''new''))\<lparr>nm_supersedes := [MemoryId ulid_c]\<rparr>]"

definition demo_merged :: store where
  "demo_merged = demo_again\<lparr>st_memories := st_memories demo_store @
     [close_row ulid_b 9 (memory_row demo_engine demo_space default_writer None demo_old ulid_c)]\<rparr>"

lemma demo_merge_run:
  "\<exists>out. insert_batch (demo_engine\<lparr>en_now := 9\<rparr>) (\<lambda>_. quiet) demo_again demo_merge = (Inr out, demo_merged)"
  by (simp add: insert_batch_def insert_batch_loop.simps insert_batch_once_def demo_batch_def
      ensure_memories_exist_def existing_memories_def closed_memories_def quiet_def
      insert_batch_txn_def insert_memory_def live_duplicate_def empty_store_def demo_merge_def
      mint_def Let_def mem_key_def supersede_targets_def find_row_def put_row_def
      batch_report_def written_row_ok superseded_by_batch_def demo_again_def demo_merged_def
      demo_store_def demo_engine_def new_memory_new_def valid_from_of_def lit_inject)

lemma demo_merged_reachable: "reachable demo_engine demo_merged"
proof -
  have "batch_ok demo_merge"
    by (simp add: demo_merge_def demo_batch_ok nm_ok_def new_memory_new_def memory_id_ok_def)
  moreover obtain out where "insert_batch (demo_engine\<lparr>en_now := 9\<rparr>) (\<lambda>_. quiet) demo_again demo_merge
      = (Inr out, demo_merged)"
    using demo_merge_run by blast
  ultimately have "store_step demo_engine True demo_again demo_merged"
    using step_batch [where E = demo_engine and tm = 9 and worlds = "\<lambda>_. quiet"]
      world_ok_quiet by blast
  with demo_again_reachable show ?thesis unfolding reachable_def by (meson rtranclp.simps)
qed

text \<open>All that is asked of the walk: it follows the link, it names nothing twice and not its origin.\<close>

definition walk_ok :: "retrieval \<Rightarrow> bool" where
  "walk_ok R \<longleftrightarrow>
     (\<forall>next i. distinct (rt_walk R next i) \<and> i \<notin> set (rt_walk R next i) \<and>
        set (rt_walk R next i) \<subseteq> {j. (i, j) \<in> {(a, b). b \<in> set (next a)}\<^sup>+})"

lemma demo_merged_links:
  "supersedes_of demo_merged i = (if i = ulid_b then [ulid_a] else [])"
  "successor_of demo_merged ulid_b = []"
  by (simp_all add: supersedes_of_def successor_of_def find_row_def demo_merged_def demo_again_def
      demo_store_def memory_row_def close_row_def demo_old_def demo_new_def new_memory_new_def)

lemma trancl_dead_end: "(i, j) \<in> {(a, b). b \<in> set (next a)}\<^sup>+ \<Longrightarrow> next i = [] \<Longrightarrow> False"
  by (induction rule: converse_trancl_induct) auto

lemma demo_merged_chain:
  assumes "walk_ok R"
  shows "distinct (chain_ids R demo_merged ulid_b) \<and> set (chain_ids R demo_merged ulid_b) \<subseteq> {ulid_a, ulid_b}"
proof -
  have w: "distinct (rt_walk R nx i)" "i \<notin> set (rt_walk R nx i)"
    "j \<in> set (rt_walk R nx i) \<Longrightarrow> (i, j) \<in> {(a, b). b \<in> set (nx a)}\<^sup>+" for nx i j
    using assms unfolding walk_ok_def by auto
  have later: "rt_walk R (successor_of demo_merged) ulid_b = []"
  proof (cases "rt_walk R (successor_of demo_merged) ulid_b")
    case (Cons j js)
    then have "(ulid_b, j) \<in> {(a, b). b \<in> set (successor_of demo_merged a)}\<^sup>+"
      by (intro w(3)) simp
    from trancl_dead_end [OF this demo_merged_links(2)] show ?thesis ..
  qed
  have "j = ulid_a" if "j \<in> set (rt_walk R (supersedes_of demo_merged) ulid_b)" for j
    using w(3) [OF that]
    by (cases rule: tranclE) (auto simp: demo_merged_links split: if_splits)
  with w(1,2) [where nx = "supersedes_of demo_merged" and i = ulid_b] later show ?thesis
    by (auto simp: chain_ids_def)
qed

lemma take_rows_total:
  assumes "distinct ids" and "\<And>i. i \<in> set ids \<Longrightarrow> \<exists>r m. rows i = Some r \<and> m_id r = i \<and> into_record r = Inr m"
  shows "\<exists>ms. take_rows ids rows = Inr ms \<and> map (\<lambda>m. memory_id_str (mr_id m)) ms = ids"
  using assms
proof (induction ids arbitrary: rows)
  case (Cons i ids)
  obtain r m where r: "rows i = Some r" "m_id r = i" "into_record r = Inr m"
    using Cons.prems(2) [of i] by auto
  have "\<exists>ms. take_rows ids (rows(i := None)) = Inr ms \<and> map (\<lambda>m. memory_id_str (mr_id m)) ms = ids"
    by (rule Cons.IH) (use Cons.prems in auto)
  with r into_record_fields(1) [OF r(3)] show ?case by auto
qed simp

lemma history_chain_total:
  assumes "store_ok st" and "distinct (chain_ids R st (memory_id_str i))"
    and "set (chain_ids R st (memory_id_str i)) \<subseteq> m_id ` set (st_memories st)"
    and "r \<in> set (st_memories st)" and "m_id r = memory_id_str i" and "m_space r = space_as_str space"
  shows "\<exists>ms. history_chain R st space i = Inr ms
    \<and> map (\<lambda>m. memory_id_str (mr_id m)) ms = chain_ids R st (memory_id_str i)"
proof -
  let ?ids = "chain_ids R st (memory_id_str i)"
  let ?rows = "filter (\<lambda>r. m_id r \<in> set ?ids) (st_memories st)"
  have "ensure_memories_exist st space [i] = Inr ()"
    using assms(4-6) by (auto simp: ensure_memories_exist_Inr)
  moreover have "\<exists>ms. take_rows ?ids (keyed m_id ?rows) = Inr ms
      \<and> map (\<lambda>m. memory_id_str (mr_id m)) ms = ?ids"
  proof (rule take_rows_total [OF assms(2)])
    fix j
    assume j: "j \<in> set ?ids"
    with assms(3) obtain x where x: "x \<in> set (st_memories st)" "m_id x = j" by auto
    have "distinct (map m_id ?rows)" using assms(1) by (simp add: store_ok_def rows_ok_def distinct_map_filter)
    moreover have "x \<in> set ?rows" using x j by simp
    ultimately have "keyed m_id ?rows j = Some x" using keyed_Some [of m_id ?rows x] x(2) by simp
    with x store_ok_readable [OF assms(1) x(1)]
    show "\<exists>r m. keyed m_id ?rows j = Some r \<and> m_id r = j \<and> into_record r = Inr m" by blast
  qed
  ultimately show ?thesis by (simp add: history_chain_def Let_def)
qed

lemma reachable_ok: "engine_ok E \<Longrightarrow> reachable E st \<Longrightarrow> store_ok st"
  using writes.run_keeps [of E empty_store st] by (simp add: reachable_def)

lemma demo_merged_ok: "store_ok demo_merged"
  by (rule reachable_ok [OF demo_engine_ok demo_merged_reachable])

text \<open>The sizes of the groups of a list add up to its length.\<close>

lemma group_sizes:
  fixes f :: "'a \<Rightarrow> 'b :: linorder"
  shows "sum_list (map (\<lambda>k. length (filter (\<lambda>x. f x = k) xs)) (sort (remdups (map f xs)))) = length xs"
proof -
  have "sum_list (map (\<lambda>k. length (filter (\<lambda>x. f x = k) xs)) (sort (remdups (map f xs))))
      = (\<Sum>k \<in> f ` set xs. length (filter (\<lambda>x. f x = k) xs))"
    by (subst sum_list_distinct_conv_sum_set) simp_all
  also have "\<dots> = length xs"
  proof -
    have "(\<Sum>k \<in> A. length (filter (\<lambda>x. f x = k) xs)) = length xs"
      if "finite A" "f ` set xs \<subseteq> A" for A
      using that(2)
    proof (induction xs)
      case (Cons x xs)
      have "(\<Sum>k \<in> A. length (filter (\<lambda>y. f y = k) (x # xs)))
          = (\<Sum>k \<in> A. (if f x = k then 1 else 0) + length (filter (\<lambda>y. f y = k) xs))"
        by (rule sum.cong) auto
      also have "\<dots> = (\<Sum>k \<in> A. if f x = k then 1 else 0)
          + (\<Sum>k \<in> A. length (filter (\<lambda>y. f y = k) xs))"
        by (rule sum.distrib)
      also have "(\<Sum>k \<in> A. if f x = k then 1 else 0) = (1 :: nat)"
        using Cons.prems \<open>finite A\<close> by (simp add: sum.delta')
      also have "(\<Sum>k \<in> A. length (filter (\<lambda>y. f y = k) xs)) = length xs"
        by (rule Cons.IH) (use Cons.prems in simp)
      finally show ?case by simp
    qed simp
    then show ?thesis by simp
  qed
  finally show ?thesis .
qed

section \<open>Properties\<close>



text \<open>C25: A hybrid search on a store in order never fails: every id the engine fused comes back as a
  candidate, in the fused order, with its fused score and its own row.\<close>

theorem search_keeps_fusion:
  assumes "store_ok st" and "retrieval_ok R"
  shows "\<exists>cs. search_hybrid R alnum lower E st q = Inr cs \<and>
    map (\<lambda>c. (hit_key (cd_hit c), cd_rrf c)) cs =
      (let ts = terms alnum lower (case s_text q of None \<Rightarrow> [] | Some s \<Rightarrow> s) in
       if ts = [] \<and> s_vector q = None then [] else hr_scored (search_query R E st q ts))"
  using search_joins [OF assms] by (auto simp: search_hybrid_def Let_def)

text \<open>Fusion by concatenation, a scan that draws nothing: a search for one word.\<close>

theorem search_keeps_fusion_witness:
  "\<exists>R cs. retrieval_ok R \<and>
     search_hybrid R (\<lambda>c. c \<noteq> 32) ascii_lower demo_engine demo_store
       ((search_new [demo_space])\<lparr>s_text := Some (lit ''new'')\<rparr>) = Inr cs"
proof -
  let ?R = "\<lparr>rt_score_memory = (\<lambda>t r. if t = m_content r then Some 1 else None),
    rt_score_chunk = (\<lambda>_ _. None), rt_knn_memory = (\<lambda>_ _ _. []), rt_knn_chunk = (\<lambda>_ _ _. []),
    rt_rrf = (\<lambda>lists pool k. map (\<lambda>x. (x, 1)) (remdups (concat lists))),
    rt_walk = (\<lambda>_ _. [])\<rparr>"
  have R: "retrieval_ok ?R" by (auto simp: retrieval_ok_def o_def)
  from search_keeps_fusion [OF demo_ok(2) R, of "\<lambda>c. c \<noteq> 32" ascii_lower demo_engine
      "(search_new [demo_space])\<lparr>s_text := Some (lit ''new'')\<rparr>"] R
  show ?thesis by blast
qed

text \<open>C26: A query becomes at most twelve terms, none repeated, each the lower-cased form of a non-empty
  run of alphanumeric characters.\<close>

theorem terms_bounded:
  "length (terms alnum lower t) \<le> 12 \<and> distinct (terms alnum lower t) \<and>
   list_all (\<lambda>x. \<exists>w. x = lower w \<and> w \<noteq> [] \<and> list_all alnum w) (terms alnum lower t)"
proof -
  let ?pieces = "split_on (\<lambda>c. \<not> alnum c) [] t"
  have p: "list_all alnum x" if "x \<in> set ?pieces" for x
    using split_on_sound [of "\<lambda>c. \<not> alnum c" "[]" x t] that by simp
  have "distinct (terms alnum lower t) \<and> length (terms alnum lower t) \<le> max_terms
      \<and> set (terms alnum lower t) \<subseteq> lower ` {p \<in> set ?pieces. p \<noteq> []}"
    using terms_loop_sound [of "[]" lower ?pieces] by (simp add: terms_def max_terms_def)
  then have d: "distinct (terms alnum lower t)" "length (terms alnum lower t) \<le> 12"
    and sub: "set (terms alnum lower t) \<subseteq> lower ` {p \<in> set ?pieces. p \<noteq> []}"
    by (simp_all add: max_terms_def)
  have "\<exists>w. x = lower w \<and> w \<noteq> [] \<and> list_all alnum w" if "x \<in> set (terms alnum lower t)" for x
    using sub that p by blast
  with d show ?thesis by (simp add: list_all_iff)
qed

text \<open>C27: \<open>locate\<close> answers position by position: a memory of a searched space when the id names one,
  else an episode of one, else nothing.\<close>

theorem locate_answers:
  assumes "store_ok st"
  shows "\<exists>ds. locate st searched ids = Inr ds \<and> list_all2 (\<lambda>i d. d =
    (if i \<in> m_id ` {r \<in> set (st_memories st). m_space r \<in> space_as_str ` set searched}
     then Some (DMemory (MemoryId i))
     else if i \<in> e_id ` {e \<in> set (st_episodes st). e_space e \<in> space_as_str ` set searched}
     then Some (DEpisode (EpisodeId i)) else None)) ids ds"
proof -
  let ?f = "\<lambda>i. if i \<in> m_id ` {r \<in> set (st_memories st). m_space r \<in> space_as_str ` set searched}
     then Some (DMemory (MemoryId i))
     else if i \<in> e_id ` {e \<in> set (st_episodes st). e_space e \<in> space_as_str ` set searched}
     then Some (DEpisode (EpisodeId i)) else None"
  have ulids: "is_ulid (m_id r)" if "r \<in> set (st_memories st)" for r
    using assms that by (auto simp: store_ok_def ids_ok_def list_all_iff)
  have eulids: "is_ulid (e_id e)" if "e \<in> set (st_episodes st)" for e
    using assms that by (auto simp: store_ok_def ids_ok_def list_all_iff)
  have "locate st searched ids = Inr (map ?f ids)"
    unfolding locate_def Let_def
    by (rule collect_results_all)
      (use ulids eulids in \<open>auto simp: episode_id_new_def record_id_new_def map_ok_def map_err_def
        memory_id_new_def\<close>)
  then show ?thesis by (auto simp: list_all2_conv_all_nth)
qed

text \<open>The id of a memory and one that names nothing.\<close>

theorem locate_answers_witness:
  "locate demo_store [demo_space] [ulid_b, ulid_d] = Inr [Some (DMemory (MemoryId ulid_b)), None]"
proof -
  obtain ds where ds: "locate demo_store [demo_space] [ulid_b, ulid_d] = Inr ds"
    "list_all2 (\<lambda>i d. d =
      (if i \<in> m_id ` {r \<in> set (st_memories demo_store). m_space r \<in> space_as_str ` set [demo_space]}
       then Some (DMemory (MemoryId i))
       else if i \<in> e_id ` {e \<in> set (st_episodes demo_store). e_space e \<in> space_as_str ` set [demo_space]}
       then Some (DEpisode (EpisodeId i)) else None)) [ulid_b, ulid_d] ds"
    using locate_answers [OF demo_ok(2), of "[demo_space]" "[ulid_b, ulid_d]"] by blast
  have "m_id ` {r \<in> set (st_memories demo_store). m_space r \<in> space_as_str ` set [demo_space]}
      = {ulid_a, ulid_b}"
  proof -
    have "{r \<in> set (st_memories demo_store). m_space r \<in> space_as_str ` set [demo_space]}
        = set (st_memories demo_store)"
      by (auto simp: demo_store_def)
    then show ?thesis by (simp add: demo_store_def)
  qed
  moreover have "set (st_episodes demo_store) = {}"
    by (simp add: demo_store_def empty_store_def)
  ultimately show ?thesis using ds by (simp add: list_all2_Cons1)
qed

text \<open>C28: The counts of a space agree with each other: the live memories are those of the kinds together,
  and no part exceeds its whole.\<close>

theorem stats_add_up:
  assumes "store_ok st"
  shows "\<exists>s. stats st space = Inr s \<and> sum_list (map snd (ss_live_by_kind s)) = ss_live s \<and>
    ss_live s \<le> ss_memories s \<and> ss_documents s \<le> ss_episodes s \<and>
    distinct (map fst (ss_live_by_kind s))"
proof -
  let ?mems = "filter (\<lambda>r. m_space r = space_as_str space) (st_memories st)"
  let ?lives = "filter (\<lambda>r. m_invalid_at r = None) ?mems"
  let ?keys = "sort (remdups (map m_kind ?lives))"
  let ?f = "\<lambda>k. map_ok (\<lambda>kd. (kd, length (filter (\<lambda>r. m_kind r = k) ?lives)))
      (map_err MalformedRow (kind_from_str k))"
  have "\<exists>kd. ?f k = Inr kd" if "k \<in> set ?keys" for k
  proof -
    from that obtain r where "r \<in> set (st_memories st)" "m_kind r = k" by auto
    with store_ok_readable [OF assms this(1)] obtain m where "into_record r = Inr m" by blast
    from into_record_fields(3) [OF this] \<open>m_kind r = k\<close> have "kind_from_str k = Inr (mr_kind m)"
      by (simp add: kind_parse_iff)
    then show ?thesis by simp
  qed
  then obtain ys where ys: "collect_results ?f ?keys = Inr ys"
    and rel: "list_all2 (\<lambda>k y. ?f k = Inr y) ?keys ys"
    using collect_total [of ?keys ?f] by blast
  have "map (\<lambda>k. length (filter (\<lambda>r. m_kind r = k) ?lives)) ?keys = map snd ys"
    by (rule list_all2_map_eq [OF rel]) auto
  moreover have "sum_list (map (\<lambda>k. length (filter (\<lambda>r. m_kind r = k) ?lives)) ?keys) = length ?lives"
    by (rule group_sizes)
  moreover have "?keys = map (kind_as_str \<circ> fst) ys"
  proof -
    have "map (\<lambda>k. k) ?keys = map (kind_as_str \<circ> fst) ys"
      by (rule list_all2_map_eq [OF rel]) (auto simp: kind_parse_iff)
    then show ?thesis by simp
  qed
  then have "distinct (map (kind_as_str \<circ> fst) ys)"
    by (metis distinct_remdups distinct_sort)
  then have "distinct (map fst ys)" by (metis distinct_map map_map)
  moreover have "stats st space = Inr \<lparr>ss_space = space, ss_memories = length ?mems,
      ss_live = length ?lives, ss_live_by_kind = ys,
      ss_episodes = length (filter (\<lambda>e. e_space e = space_as_str space) (st_episodes st)),
      ss_chunks = length (filter (\<lambda>c. c_space c = space_as_str space) (st_chunks st)),
      ss_documents = length (filter (\<lambda>e. e_doc_kind e \<noteq> None)
        (filter (\<lambda>e. e_space e = space_as_str space) (st_episodes st)))\<rparr>"
    unfolding stats_def Let_def ys by simp
  moreover have "length ?lives \<le> length ?mems"
    "length (filter (\<lambda>e. e_doc_kind e \<noteq> None)
        (filter (\<lambda>e. e_space e = space_as_str space) (st_episodes st)))
      \<le> length (filter (\<lambda>e. e_space e = space_as_str space) (st_episodes st))"
    by (rule length_filter_le)+
  ultimately show ?thesis
    by (intro exI conjI) (assumption | simp only: space_stats.simps)+
qed

text \<open>Counting the small store.\<close>

theorem stats_add_up_witness:
  "\<exists>s. stats demo_store demo_space = Inr s \<and> ss_live s \<le> ss_memories s"
  using stats_add_up [OF demo_ok(2), of demo_space] by blast



text \<open>C30: The history of a memory can leave out a memory it replaced: when the words re-sent with a
  correction were already live, the live row becomes the successor but its \<open>supersedes\<close> column
  is not written, so the walk back from it does not find what it closed.\<close>

theorem history_misses_predecessor:
  assumes "walk_ok R"
  shows "\<exists>st ms. reachable demo_engine st \<and> superseded_in st ulid_c ulid_b \<and>
    history_chain R st demo_space (MemoryId ulid_b) = Inr ms \<and> MemoryId ulid_c \<notin> mr_id ` set ms"
proof -
  note c = demo_merged_chain [OF assms]
  let ?b = "memory_row demo_engine demo_space default_writer None demo_new ulid_b"
  have ok: "store_ok demo_merged" by (rule demo_merged_ok)
  have "{ulid_a, ulid_b} \<subseteq> m_id ` set (st_memories demo_merged)"
    by (auto simp: demo_merged_def demo_store_def)
  moreover have "?b \<in> set (st_memories demo_merged)"
    by (simp add: demo_merged_def demo_store_def)
  ultimately obtain ms where ms: "history_chain R demo_merged demo_space (MemoryId ulid_b) = Inr ms"
    "map (\<lambda>m. memory_id_str (mr_id m)) ms = chain_ids R demo_merged ulid_b"
    using history_chain_total [OF ok, of R "MemoryId ulid_b" ?b demo_space] c by auto
  have "superseded_in demo_merged ulid_c ulid_b"
    by (simp add: superseded_in_def demo_merged_def)
  moreover have "MemoryId ulid_c \<notin> mr_id ` set ms"
  proof
    assume "MemoryId ulid_c \<in> mr_id ` set ms"
    then obtain m where "m \<in> set ms" "mr_id m = MemoryId ulid_c" by auto
    then have "memory_id_str (mr_id m) \<in> set (map (\<lambda>m. memory_id_str (mr_id m)) ms)"
      unfolding set_map by blast
    with ms(2) c \<open>mr_id m = MemoryId ulid_c\<close> show False by auto
  qed
  ultimately show ?thesis using demo_merged_reachable ms(1) by blast
qed

text \<open>A walk of one link.\<close>

theorem history_misses_predecessor_witness:
  "\<exists>R st ms. history_chain R st demo_space (MemoryId ulid_b) = Inr ms \<and>
     superseded_in st ulid_c ulid_b \<and> MemoryId ulid_c \<notin> mr_id ` set ms"
proof -
  let ?R = "\<lparr>rt_score_memory = (\<lambda>_ _. None), rt_score_chunk = (\<lambda>_ _. None),
    rt_knn_memory = (\<lambda>_ _ _. []), rt_knn_chunk = (\<lambda>_ _ _. []), rt_rrf = (\<lambda>_ _ _. []),
    rt_walk = (\<lambda>next i. filter (\<lambda>j. j \<noteq> i) (remdups (next i)))\<rparr>"
  have "walk_ok ?R" by (auto simp: walk_ok_def)
  from history_misses_predecessor [OF this] show ?thesis by blast
qed

end
