(* ===== verification/Spec2Isabelle.thy ===== *)
theory Spec2Isabelle
  imports Chunk Scoring StoreRead
begin

text \<open>
  agmem: the memory of coding agents.
\<close>

end
